theory Spec2Isabelle
  imports Complex_Main "HOL-Library.Log_Nat"
begin

section \<open>The stream scheduler of \<^verbatim>\<open>src/services/schedulerService.js\<close>\<close>

text \<open>
  The module keeps a map \<^verbatim>\<open>scheduledTerminations\<close> from stream id to the handle of a
  pending \<^verbatim>\<open>setTimeout\<close>, a reference \<^verbatim>\<open>streamingService\<close> to the streaming engine,
  and two periodic tasks: \<^verbatim>\<open>checkScheduledStreams\<close> starts the streams that are due,
  \<^verbatim>\<open>checkStreamDurations\<close> stops or arms the live streams that have a duration.

  Conventions of the embedding.
  \<^item> The module variables are the fields of the record \<open>scheduler\<close>; every function of the
    module takes the state and returns the new one. \<^verbatim>\<open>init\<close> only stores the engine and
    starts the two periodic tasks: a state with \<open>streamingService = Some svc\<close> is a state
    after \<^verbatim>\<open>init\<close>, and the ticks it drives are the actions of a run (below).
  \<^item> The timeouts pending in the event loop are a map from handle to the closure the source
    passes to \<^verbatim>\<open>setTimeout\<close> (its captured variables) and the delay it asks for.
  \<^item> What the module does to the world (console output, calls of the engine, queries of
    the repository) is appended to the field \<open>trace\<close>, in order.
  \<^item> An \<^verbatim>\<open>await\<close> either resolves with a value or rejects; a rejection is an exception
    at the \<^verbatim>\<open>await\<close>. A tick runs to its end in one step. The callback of a timeout is
    given both ways: in one step (\<open>fireTimeout\<close>), and in the two steps the \<^verbatim>\<open>await\<close> of
    line 90 cuts it into (\<open>fireTimeoutAwait\<close>, \<open>fireTimeoutResume\<close>), between which other
    calls of the module may run.
  \<^item> A JavaScript number is \<open>NaN\<close>, an infinity or a finite double, held as the rational
    it is equal to; every arithmetic operation rounds its exact result to the nearest double,
    ties to even, and overflows to an infinity (\<open>round_double\<close>). The sign of zero is not
    kept.
  \<^item> A \<^verbatim>\<open>Date\<close> is its time value, a number: an integer of milliseconds within
    \<open>8.64e15\<close> of the epoch, or \<open>NaN\<close> for an invalid date (\<open>Date_new\<close>).
\<close>

subsection \<open>JavaScript values\<close>

datatype jsnum = NaN | NegInfinity | Finite rat | PosInfinity

datatype jsval = JNumber jsnum | JString string | JBoolean bool | JUndefined | JNull

text \<open>\<^verbatim>\<open>typeof v !== 'number'\<close>\<close>

fun typeof_number :: "jsval \<Rightarrow> bool" where
  "typeof_number (JNumber n) = True"
| "typeof_number v = False"

text \<open>\<^verbatim>\<open>Number.isNaN(v)\<close>: true for the number \<open>NaN\<close> only.\<close>

fun Number_isNaN :: "jsval \<Rightarrow> bool" where
  "Number_isNaN (JNumber NaN) = True"
| "Number_isNaN v = False"

text \<open>\<^verbatim>\<open>Number.isFinite(v)\<close>, the test the specification words: a number that is neither
  \<open>NaN\<close> nor an infinity.\<close>

fun Number_isFinite :: "jsval \<Rightarrow> bool" where
  "Number_isFinite (JNumber (Finite r)) = True"
| "Number_isFinite v = False"

text \<open>The comparison \<^verbatim>\<open>a <= b\<close> of two numbers: false as soon as one is \<open>NaN\<close>.\<close>

fun js_le :: "jsnum \<Rightarrow> jsnum \<Rightarrow> bool" where
  "js_le NaN b = False"
| "js_le a NaN = False"
| "js_le NegInfinity b = True"
| "js_le a PosInfinity = True"
| "js_le (Finite a) (Finite b) = (a \<le> b)"
| "js_le (Finite a) NegInfinity = False"
| "js_le PosInfinity b = False"

text \<open>\<^verbatim>\<open>Math.max(a, b)\<close>\<close>

definition Math_max :: "jsnum \<Rightarrow> jsnum \<Rightarrow> jsnum" where
  "Math_max a b = (if a = NaN \<or> b = NaN then NaN else if js_le a b then b else a)"

text \<open>Rounding to the nearest double (IEEE 754 binary64, round to nearest, ties to even).
  For \<open>a > 0\<close>, \<open>binary_exponent a\<close> is the \<open>e\<close> with \<open>2^e \<le> a < 2^(e+1)\<close>, found from
  the bit lengths of numerator and denominator; below \<open>2^(-1022)\<close> the doubles are
  subnormal and keep the spacing \<open>2^(-1074)\<close>. The value is rounded to a multiple of the
  spacing \<open>2^(e-52)\<close>; a result of \<open>2^1024\<close> or more is an infinity.\<close>

definition round_half_even :: "rat \<Rightarrow> int" where
  "round_half_even x =
     (let f = \<lfloor>x\<rfloor>; d = x - of_int f
      in if d < 1 / 2 then f else if 1 / 2 < d then f + 1 else if even f then f else f + 1)"

definition pow2 :: "int \<Rightarrow> rat" where
  "pow2 e = (if 0 \<le> e then 2 ^ nat e else 1 / 2 ^ nat (- e))"

definition binary_exponent :: "rat \<Rightarrow> int" where
  "binary_exponent a =
     (case quotient_of a of
        (p, q) \<Rightarrow> (let e0 = bitlen p - bitlen q in if pow2 e0 \<le> a then e0 else e0 - 1))"

definition round_double :: "rat \<Rightarrow> jsnum" where
  "round_double r =
     (if r = 0 then Finite 0
      else
        (let a = \<bar>r\<bar>;
             e = max (binary_exponent a) (- 1022);
             ulp = pow2 (e - 52);
             v = of_int (round_half_even (a / ulp)) * ulp
         in if pow2 1024 \<le> v then (if 0 < r then PosInfinity else NegInfinity)
            else Finite (if 0 < r then v else - v)))"

text \<open>The product \<^verbatim>\<open>a * b\<close>: \<open>NaN\<close> is absorbing, zero times an infinity is \<open>NaN\<close>, and
  an infinity takes the sign of the product.\<close>

fun js_positive :: "jsnum \<Rightarrow> bool" where
  "js_positive PosInfinity = True"
| "js_positive (Finite r) = (0 < r)"
| "js_positive n = False"

fun js_times :: "jsnum \<Rightarrow> jsnum \<Rightarrow> jsnum" where
  "js_times NaN b = NaN"
| "js_times a NaN = NaN"
| "js_times (Finite a) (Finite b) = round_double (a * b)"
| "js_times a b =
     (if a = Finite 0 \<or> b = Finite 0 then NaN
      else if js_positive a = js_positive b then PosInfinity else NegInfinity)"

text \<open>The sum \<^verbatim>\<open>a + b\<close> and the difference \<^verbatim>\<open>a - b\<close>: opposite infinities give
  \<open>NaN\<close>.\<close>

fun js_plus :: "jsnum \<Rightarrow> jsnum \<Rightarrow> jsnum" where
  "js_plus NaN b = NaN"
| "js_plus a NaN = NaN"
| "js_plus (Finite a) (Finite b) = round_double (a + b)"
| "js_plus PosInfinity NegInfinity = NaN"
| "js_plus NegInfinity PosInfinity = NaN"
| "js_plus PosInfinity b = PosInfinity"
| "js_plus NegInfinity b = NegInfinity"
| "js_plus (Finite a) b = b"

fun js_negate :: "jsnum \<Rightarrow> jsnum" where
  "js_negate NaN = NaN"
| "js_negate NegInfinity = PosInfinity"
| "js_negate (Finite a) = Finite (- a)"
| "js_negate PosInfinity = NegInfinity"

definition js_minus :: "jsnum \<Rightarrow> jsnum \<Rightarrow> jsnum" where
  "js_minus a b = js_plus a (js_negate b)"

text \<open>The quotient \<^verbatim>\<open>a / b\<close>: a finite number over zero is an infinity (\<open>NaN\<close> for zero
  over zero), a finite number over an infinity is zero, an infinity over an infinity is
  \<open>NaN\<close>.\<close>

fun js_divide :: "jsnum \<Rightarrow> jsnum \<Rightarrow> jsnum" where
  "js_divide NaN b = NaN"
| "js_divide a NaN = NaN"
| "js_divide (Finite a) (Finite b) =
     (if b = 0 then (if a = 0 then NaN else if 0 < a then PosInfinity else NegInfinity)
      else round_double (a / b))"
| "js_divide (Finite a) b = Finite 0"
| "js_divide a (Finite b) = (if js_positive a = (0 \<le> b) then PosInfinity else NegInfinity)"
| "js_divide a b = NaN"

text \<open>\<^verbatim>\<open>new Date(v).getTime()\<close> for a number \<open>v\<close>: the time value is \<open>v\<close> without its
  fraction, and \<open>NaN\<close> (an invalid date) when \<open>v\<close> is not finite or is further than
  \<open>8.64e15\<close> milliseconds from the epoch.\<close>

fun Date_new :: "jsnum \<Rightarrow> jsnum" where
  "Date_new (Finite v) =
     (if 8640000000000000 < \<bar>v\<bar> then NaN
      else Finite (of_int (if 0 \<le> v then \<lfloor>v\<rfloor> else \<lceil>v\<rceil>)))"
| "Date_new v = NaN"

subsection \<open>Streams, the engine and the repository\<close>

text \<open>A row of the table \<^verbatim>\<open>streams\<close> of \<^verbatim>\<open>src/db/database.js\<close>, with the columns the
  scheduler reads: \<^verbatim>\<open>id TEXT\<close>, \<^verbatim>\<open>title TEXT\<close>, \<^verbatim>\<open>schedule_time TIMESTAMP\<close>,
  \<^verbatim>\<open>duration INTEGER\<close> (minutes), \<^verbatim>\<open>status TEXT\<close> and \<^verbatim>\<open>start_time TIMESTAMP\<close>. A column
  that is \<^verbatim>\<open>NULL\<close> is \<open>None\<close>; a timestamp is the instant it denotes, in milliseconds
  since the epoch.\<close>

datatype stream_status = Offline | Scheduled | Live | Error

record stream =
  stream_id :: string
  title :: string
  schedule_time :: "int option"
  duration :: "int option"
  status :: stream_status
  start_time :: "int option"

text \<open>What an \<^verbatim>\<open>await\<close> gives: the value the promise resolves with, or the exception it
  rejects with.\<close>

datatype 'a outcome = Resolved 'a | Rejected string

text \<open>The object \<^verbatim>\<open>{ success, error }\<close> the engine answers with.\<close>

record engine_result =
  success :: bool
  error :: "string option"

text \<open>The streaming engine (\<^verbatim>\<open>streamingService\<close>): the scheduler calls its \<^verbatim>\<open>startStream\<close>
  and \<^verbatim>\<open>stopStream\<close> only.\<close>

record engine =
  startStream :: "string \<Rightarrow> engine_result outcome"
  stopStream :: "string \<Rightarrow> engine_result outcome"

text \<open>The model \<^verbatim>\<open>Stream\<close> of \<^verbatim>\<open>../models/Stream\<close>, which the scheduler queries:
  \<^verbatim>\<open>Stream.findScheduledInRange(from, to)\<close> and \<^verbatim>\<open>Stream.findAll(userId, filter)\<close>.\<close>

record repository =
  findScheduledInRange :: "int \<Rightarrow> int \<Rightarrow> stream list outcome"
  findAll :: "string option \<Rightarrow> stream_status option \<Rightarrow> stream list outcome"

subsection \<open>The state of the module\<close>

text \<open>The closure passed to \<^verbatim>\<open>setTimeout\<close> captures \<^verbatim>\<open>streamId\<close> and \<^verbatim>\<open>clampedMinutes\<close>;
  \<open>delay\<close> is the second argument of \<^verbatim>\<open>setTimeout\<close>, in milliseconds.\<close>

record timeout =
  streamId :: string
  clampedMinutes :: jsnum
  delay :: jsnum

datatype event =
    Error_not_initialized
  | Call_findScheduledInRange int int
  | Log_found nat
  | Log_starting string string
  | Call_startStream string
  | Log_started string
  | Error_failed_to_start string "string option"
  | Error_checking_scheduled string
  | Call_findAll "string option" "stream_status option"
  | Log_exceeded string
  | Call_stopStream string
  | Error_checking_durations string
  | Error_invalid_duration string jsval
  | Log_scheduling string jsnum
  | Log_terminating string jsnum
  | Error_terminating string string
  | Log_cancelled string

record scheduler =
  streamingService :: "engine option"
  scheduledTerminations :: "string \<rightharpoonup> nat"
  timers :: "nat \<rightharpoonup> timeout"
  nextTimerId :: nat
  trace :: "event list"

definition SCHEDULE_LOOKAHEAD_SECONDS :: int where
  "SCHEDULE_LOOKAHEAD_SECONDS = 60"

definition emit :: "event \<Rightarrow> scheduler \<Rightarrow> scheduler" where
  "emit e s = s\<lparr>trace := trace s @ [e]\<rparr>"

text \<open>\<^verbatim>\<open>setTimeout(callback, delay)\<close> gives a handle no earlier call gave and makes the
  timeout pending; \<^verbatim>\<open>clearTimeout(handle)\<close> removes it from the pending ones, and does
  nothing for a handle that is not pending.\<close>

definition setTimeout :: "timeout \<Rightarrow> scheduler \<Rightarrow> nat \<times> scheduler" where
  "setTimeout t s =
     (nextTimerId s,
      s\<lparr>timers := (timers s)(nextTimerId s \<mapsto> t), nextTimerId := Suc (nextTimerId s)\<rparr>)"

definition clearTimeout :: "nat \<Rightarrow> scheduler \<Rightarrow> scheduler" where
  "clearTimeout h s = s\<lparr>timers := (timers s)(h := None)\<rparr>"

subsection \<open>The termination registry\<close>

text \<open>\<^verbatim>\<open>scheduleStreamTermination(streamId, durationMinutes)\<close>, lines 72 to 97.\<close>

definition scheduleStreamTermination :: "string \<Rightarrow> jsval \<Rightarrow> scheduler \<Rightarrow> scheduler" where
  "scheduleStreamTermination sid durationMinutes s =
     (if streamingService s = None then emit Error_not_initialized s
      else if \<not> typeof_number durationMinutes \<or> Number_isNaN durationMinutes
        then emit (Error_invalid_duration sid durationMinutes) s
      else
        (case durationMinutes of
           JNumber n \<Rightarrow>
             (let s1 = (case scheduledTerminations s sid of
                          Some old \<Rightarrow> clearTimeout old s
                        | None \<Rightarrow> s);
                  clamped = Math_max (Finite 0) n;
                  durationMs = js_times (js_times clamped (Finite 60)) (Finite 1000);
                  s2 = emit (Log_scheduling sid clamped) s1;
                  (timeoutId, s3) =
                    setTimeout \<lparr>streamId = sid, clampedMinutes = clamped, delay = durationMs\<rparr> s2
              in s3\<lparr>scheduledTerminations := (scheduledTerminations s3)(sid \<mapsto> timeoutId)\<rparr>)
         | _ \<Rightarrow> emit (Error_invalid_duration sid durationMinutes) s))"

text \<open>The callback of the timeout, lines 87 to 95, run when the pending timeout \<open>h\<close>
  fires: the timeout is no longer pending, the engine is asked to stop the stream, and the
  entry of the stream is deleted after the \<^verbatim>\<open>await\<close>, inside the \<^verbatim>\<open>try\<close>. A handle that is
  not pending never fires.\<close>

definition fireTimeout :: "nat \<Rightarrow> scheduler \<Rightarrow> scheduler" where
  "fireTimeout h s =
     (case timers s h of
        None \<Rightarrow> s
      | Some t \<Rightarrow>
          (let s1 = emit (Log_terminating (streamId t) (clampedMinutes t)) (clearTimeout h s) in
           case streamingService s1 of
             None \<Rightarrow> emit (Error_terminating (streamId t) ''TypeError'') s1
           | Some svc \<Rightarrow>
               (let s2 = emit (Call_stopStream (streamId t)) s1 in
                case stopStream svc (streamId t) of
                  Rejected err \<Rightarrow> emit (Error_terminating (streamId t) err) s2
                | Resolved r \<Rightarrow>
                    s2\<lparr>scheduledTerminations :=
                         (scheduledTerminations s2)(streamId t := None)\<rparr>)))"

text \<open>The same callback in the two steps the \<^verbatim>\<open>await\<close> of line 90 cuts it into.
  \<open>fireTimeoutAwait\<close> runs lines 88 to 90 up to the \<^verbatim>\<open>await\<close>: the engine is asked to stop
  the stream, and the callback is suspended with the stream and what the engine will answer.
  \<open>fireTimeoutResume\<close> runs the rest when the answer is there: the deletion of line 91, or
  the \<^verbatim>\<open>catch\<close> of line 92. Between the two, other calls of the module may run.\<close>

definition fireTimeoutAwait ::
  "nat \<Rightarrow> scheduler \<Rightarrow> scheduler \<times> (string \<times> engine_result outcome) option" where
  "fireTimeoutAwait h s =
     (case timers s h of
        None \<Rightarrow> (s, None)
      | Some t \<Rightarrow>
          (let s1 = emit (Log_terminating (streamId t) (clampedMinutes t)) (clearTimeout h s) in
           case streamingService s1 of
             None \<Rightarrow> (emit (Error_terminating (streamId t) ''TypeError'') s1, None)
           | Some svc \<Rightarrow>
               (emit (Call_stopStream (streamId t)) s1,
                Some (streamId t, stopStream svc (streamId t)))))"

fun fireTimeoutResume :: "string \<times> engine_result outcome \<Rightarrow> scheduler \<Rightarrow> scheduler" where
  "fireTimeoutResume (sid, Rejected err) s = emit (Error_terminating sid err) s"
| "fireTimeoutResume (sid, Resolved r) s =
     s\<lparr>scheduledTerminations := (scheduledTerminations s)(sid := None)\<rparr>"

text \<open>A call of \<^verbatim>\<open>scheduleStreamTermination(sid, n)\<close> that runs while the callback of the
  timeout \<open>h\<close> is suspended at its \<^verbatim>\<open>await\<close>, and the callback resumed after it.\<close>

definition rearm_during_await :: "nat \<Rightarrow> string \<Rightarrow> jsnum \<Rightarrow> scheduler \<Rightarrow> scheduler" where
  "rearm_during_await h sid n s =
     (case fireTimeoutAwait h s of
        (s1, None) \<Rightarrow> scheduleStreamTermination sid (JNumber n) s1
      | (s1, Some suspended) \<Rightarrow>
          fireTimeoutResume suspended (scheduleStreamTermination sid (JNumber n) s1))"

text \<open>\<^verbatim>\<open>cancelStreamTermination(streamId)\<close>, lines 98 to 106, with the value it returns.\<close>

definition cancelStreamTermination :: "string \<Rightarrow> scheduler \<Rightarrow> bool \<times> scheduler" where
  "cancelStreamTermination sid s =
     (case scheduledTerminations s sid of
        Some h \<Rightarrow>
          (let s1 = clearTimeout h s;
               s2 = s1\<lparr>scheduledTerminations := (scheduledTerminations s1)(sid := None)\<rparr>
           in (True, emit (Log_cancelled sid) s2))
      | None \<Rightarrow> (False, s))"

text \<open>\<^verbatim>\<open>handleStreamStopped(streamId)\<close>, lines 107 to 109.\<close>

definition handleStreamStopped :: "string \<Rightarrow> scheduler \<Rightarrow> bool \<times> scheduler" where
  "handleStreamStopped sid s = cancelStreamTermination sid s"

subsection \<open>The schedule poller\<close>

text \<open>The loop of lines 32 to 40 over the streams the query returned. A call of the engine
  that rejects leaves the loop for the \<^verbatim>\<open>catch\<close> of line 42: the loop returns the state it
  reached and the exception.\<close>

fun startLoop :: "stream list \<Rightarrow> scheduler \<Rightarrow> scheduler \<times> string option" where
  "startLoop [] s = (s, None)"
| "startLoop (b # bs) s =
     (let s1 = emit (Log_starting (stream_id b) (title b)) s in
      case streamingService s1 of
        None \<Rightarrow> (s1, Some ''TypeError'')
      | Some svc \<Rightarrow>
          (let s2 = emit (Call_startStream (stream_id b)) s1 in
           case startStream svc (stream_id b) of
             Rejected err \<Rightarrow> (s2, Some err)
           | Resolved result \<Rightarrow>
               if success result
               then startLoop bs (emit (Log_started (stream_id b)) s2)
               else startLoop bs (emit (Error_failed_to_start (stream_id b) (error result)) s2)))"

text \<open>\<^verbatim>\<open>lookAheadTime\<close> of line 28, from the time value of \<^verbatim>\<open>now\<close>.\<close>

definition lookAheadTime :: "int \<Rightarrow> int" where
  "lookAheadTime now = now + SCHEDULE_LOOKAHEAD_SECONDS * 1000"

text \<open>\<^verbatim>\<open>checkScheduledStreams()\<close>, lines 21 to 45, run at the instant \<open>now\<close> against the
  repository \<open>Stream\<close>.\<close>

definition checkScheduledStreams :: "repository \<Rightarrow> int \<Rightarrow> scheduler \<Rightarrow> scheduler" where
  "checkScheduledStreams Stream now s =
     (if streamingService s = None then emit Error_not_initialized s
      else
        (let s1 = emit (Call_findScheduledInRange now (lookAheadTime now)) s in
         case findScheduledInRange Stream now (lookAheadTime now) of
           Rejected err \<Rightarrow> emit (Error_checking_scheduled err) s1
         | Resolved streams \<Rightarrow>
             if length streams > 0
             then (case startLoop streams (emit (Log_found (length streams)) s1) of
                     (s2, None) \<Rightarrow> s2
                   | (s2, Some err) \<Rightarrow> emit (Error_checking_scheduled err) s2)
             else s1))"

subsection \<open>The duration watchdog\<close>

text \<open>The body of the loop of lines 53 to 67 for one stream, where \<open>now\<close> is the instant
  line 58 reads. \<^verbatim>\<open>stream.duration\<close> is truthy when it is neither \<^verbatim>\<open>NULL\<close> nor \<open>0\<close>,
  \<^verbatim>\<open>stream.start_time\<close> when it is not \<^verbatim>\<open>NULL\<close>. The dates are compared and subtracted
  by their time values, which are numbers: an invalid \<^verbatim>\<open>shouldEndAt\<close> is \<open>NaN\<close>, not less
  than or equal to anything, and the \<^verbatim>\<open>else\<close> of line 62 is taken with it. The value the
  engine answers a stop with is not looked at; a stop that rejects leaves the loop for the
  \<^verbatim>\<open>catch\<close> of line 68.\<close>

definition checkStreamDuration :: "int \<Rightarrow> stream \<Rightarrow> scheduler \<Rightarrow> scheduler \<times> string option" where
  "checkStreamDuration now b s =
     (case (duration b, start_time b) of
        (Some d, Some st) \<Rightarrow>
          if d \<noteq> 0 \<and> scheduledTerminations s (stream_id b) = None then
            (let startTime = Date_new (Finite (of_int st));
                 durationMs = js_times (js_times (round_double (of_int d)) (Finite 60)) (Finite 1000);
                 shouldEndAt = Date_new (js_plus startTime durationMs);
                 nowTime = Date_new (Finite (of_int now))
             in if js_le shouldEndAt nowTime then
                  (let s1 = emit (Log_exceeded (stream_id b)) s in
                   case streamingService s1 of
                     None \<Rightarrow> (s1, Some ''TypeError'')
                   | Some svc \<Rightarrow>
                       (let s2 = emit (Call_stopStream (stream_id b)) s1 in
                        case stopStream svc (stream_id b) of
                          Rejected err \<Rightarrow> (s2, Some err)
                        | Resolved result \<Rightarrow> (s2, None)))
                else
                  (let timeUntilEnd = js_minus shouldEndAt nowTime in
                   (scheduleStreamTermination (stream_id b)
                      (JNumber (js_divide timeUntilEnd (Finite 60000))) s, None)))
          else (s, None)
      | _ \<Rightarrow> (s, None))"

text \<open>The loop itself: \<open>clock i\<close> is the instant the iteration \<open>i\<close> reads.\<close>

fun durationsLoop ::
  "(nat \<Rightarrow> int) \<Rightarrow> nat \<Rightarrow> stream list \<Rightarrow> scheduler \<Rightarrow> scheduler \<times> string option" where
  "durationsLoop clock i [] s = (s, None)"
| "durationsLoop clock i (b # bs) s =
     (case checkStreamDuration (clock i) b s of
        (s1, Some err) \<Rightarrow> (s1, Some err)
      | (s1, None) \<Rightarrow> durationsLoop clock (Suc i) bs s1)"

text \<open>\<^verbatim>\<open>checkStreamDurations()\<close>, lines 46 to 71.\<close>

definition checkStreamDurations :: "repository \<Rightarrow> (nat \<Rightarrow> int) \<Rightarrow> scheduler \<Rightarrow> scheduler" where
  "checkStreamDurations Stream clock s =
     (if streamingService s = None then emit Error_not_initialized s
      else
        (let s1 = emit (Call_findAll None (Some Live)) s in
         case findAll Stream None (Some Live) of
           Rejected err \<Rightarrow> emit (Error_checking_durations err) s1
         | Resolved liveStreams \<Rightarrow>
             (case durationsLoop clock 0 liveStreams s1 of
                (s2, None) \<Rightarrow> s2
              | (s2, Some err) \<Rightarrow> emit (Error_checking_durations err) s2)))"

subsection \<open>Runs of the scheduler\<close>

text \<open>What happens to the module after \<^verbatim>\<open>init\<close>: a tick of either periodic task, a pending
  timeout that fires and whose callback runs to its end, or a call of one of the exported
  functions.\<close>

datatype action =
    Poll repository int
  | Watch repository "nat \<Rightarrow> int"
  | Fire nat
  | Arm string jsval
  | Cancel string
  | Stopped string

fun step :: "action \<Rightarrow> scheduler \<Rightarrow> scheduler" where
  "step (Poll Stream now) s = checkScheduledStreams Stream now s"
| "step (Watch Stream clock) s = checkStreamDurations Stream clock s"
| "step (Fire h) s = fireTimeout h s"
| "step (Arm sid durationMinutes) s = scheduleStreamTermination sid durationMinutes s"
| "step (Cancel sid) s = snd (cancelStreamTermination sid s)"
| "step (Stopped sid) s = snd (handleStreamStopped sid s)"

fun run :: "action list \<Rightarrow> scheduler \<Rightarrow> scheduler" where
  "run [] s = s"
| "run (a # as) s = run as (step a s)"

subsection \<open>The repository, from the specification\<close>

text \<open>Modelled from the spec: \<^verbatim>\<open>Stream.findScheduledInRange\<close> of \<^verbatim>\<open>../models/Stream\<close> is not
  among the sources. The specification gives it as
  \<^verbatim>\<open>findDueInRange(from, to)\<close>: the broadcasts with \<^verbatim>\<open>status = scheduled\<close> and
  \<^verbatim>\<open>scheduled_time\<close> in \<^verbatim>\<open>[from, to]\<close>, both ends included. \<open>rows\<close> is the table.\<close>

definition spec_findScheduledInRange :: "stream list \<Rightarrow> int \<Rightarrow> int \<Rightarrow> stream list outcome" where
  "spec_findScheduledInRange rows from to =
     Resolved (filter (\<lambda>b. status b = Scheduled \<and>
                 (case schedule_time b of None \<Rightarrow> False | Some t \<Rightarrow> from \<le> t \<and> t \<le> to)) rows)"

text \<open>Modelled from the spec: \<^verbatim>\<open>Stream.findAll\<close> of \<^verbatim>\<open>../models/Stream\<close> is not among the
  sources. The specification gives the query of the watchdog as \<^verbatim>\<open>findActive()\<close>: the
  broadcasts with \<^verbatim>\<open>status = live\<close>; with another filter the rows of that status, with none
  all rows.\<close>

definition spec_findAll ::
  "stream list \<Rightarrow> string option \<Rightarrow> stream_status option \<Rightarrow> stream list outcome" where
  "spec_findAll rows userId wanted =
     Resolved (case wanted of None \<Rightarrow> rows | Some st \<Rightarrow> filter (\<lambda>b. status b = st) rows)"

definition spec_repository :: "stream list \<Rightarrow> repository" where
  "spec_repository rows =
     \<lparr>findScheduledInRange = spec_findScheduledInRange rows, findAll = spec_findAll rows\<rparr>"

subsection \<open>The vocabulary of the properties\<close>

text \<open>The invariant of the registry: every pending timeout is the one the registry holds for
  the stream its callback stops, and no handle in use is one \<^verbatim>\<open>setTimeout\<close> has still to
  give. An entry of the registry may outlive its timeout; a pending timeout never lacks its
  entry. It is an invariant of the runs below, in which the callback of a timeout runs in
  one step; a call that runs while a callback is suspended can break it
  (\<open>rearm_during_await\<close>).\<close>

definition registry_inv :: "scheduler \<Rightarrow> bool" where
  "registry_inv s =
     ((\<forall>h t. timers s h = Some t \<longrightarrow>
          h < nextTimerId s \<and> scheduledTerminations s (streamId t) = Some h) \<and>
      (\<forall>sid h. scheduledTerminations s sid = Some h \<longrightarrow> h < nextTimerId s))"

text \<open>The number of calls of \<^verbatim>\<open>stopStream\<close> for a stream so far, and the streams
  \<^verbatim>\<open>startStream\<close> was called for, in order.\<close>

definition stopCalls :: "string \<Rightarrow> scheduler \<Rightarrow> nat" where
  "stopCalls sid s = count_list (trace s) (Call_stopStream sid)"

fun startCalls :: "event list \<Rightarrow> string list" where
  "startCalls [] = []"
| "startCalls (Call_startStream sid # es) = sid # startCalls es"
| "startCalls (e # es) = startCalls es"

fun resolved :: "'a outcome \<Rightarrow> bool" where
  "resolved (Resolved v) = True"
| "resolved (Rejected err) = False"

text \<open>A stream the condition of line 54 passes over whatever the registry holds: its
  \<^verbatim>\<open>duration\<close> is \<^verbatim>\<open>NULL\<close> or \<open>0\<close>, or its \<^verbatim>\<open>start_time\<close> is \<^verbatim>\<open>NULL\<close>.\<close>

definition skipped :: "stream \<Rightarrow> bool" where
  "skipped b = (duration b = None \<or> duration b = Some 0 \<or> start_time b = None)"

text \<open>Conditions on one action of a run, for a stream \<open>sid\<close>: the live streams a tick of the
  watchdog is given list \<open>sid\<close> only as a skipped stream (\<open>watch_skips\<close>), only without a
  duration (\<open>reports_no_duration\<close>), only with the duration \<open>0\<close> or without a start time
  (\<open>reports_zero_or_unstarted\<close>); and the action is not a call of
  \<^verbatim>\<open>scheduleStreamTermination\<close> for \<open>sid\<close> from outside the watchdog (\<open>arms_other\<close>).\<close>

fun watch_skips :: "string \<Rightarrow> action \<Rightarrow> bool" where
  "watch_skips sid (Watch Stream clock) =
     (case findAll Stream None (Some Live) of
        Rejected err \<Rightarrow> True
      | Resolved liveStreams \<Rightarrow> list_all (\<lambda>b. stream_id b \<noteq> sid \<or> skipped b) liveStreams)"
| "watch_skips sid a = True"

fun reports_no_duration :: "string \<Rightarrow> action \<Rightarrow> bool" where
  "reports_no_duration sid (Watch Stream clock) =
     (case findAll Stream None (Some Live) of
        Rejected err \<Rightarrow> True
      | Resolved liveStreams \<Rightarrow>
          list_all (\<lambda>b. stream_id b \<noteq> sid \<or> duration b = None) liveStreams)"
| "reports_no_duration sid a = True"

fun reports_zero_or_unstarted :: "string \<Rightarrow> action \<Rightarrow> bool" where
  "reports_zero_or_unstarted sid (Watch Stream clock) =
     (case findAll Stream None (Some Live) of
        Rejected err \<Rightarrow> True
      | Resolved liveStreams \<Rightarrow>
          list_all (\<lambda>b. stream_id b \<noteq> sid \<or> duration b = Some 0 \<or> start_time b = None)
            liveStreams)"
| "reports_zero_or_unstarted sid a = True"

fun arms_other :: "string \<Rightarrow> action \<Rightarrow> bool" where
  "arms_other sid (Arm sid' durationMinutes) = (sid' \<noteq> sid)"
| "arms_other sid a = True"

text \<open>What the loop of the poller writes to the trace for one stream: the two lines before
  the \<^verbatim>\<open>await\<close> and, when the start resolves, the line of line 36 or of line 38.\<close>

definition start_events :: "engine \<Rightarrow> stream \<Rightarrow> event list" where
  "start_events svc b =
     [Log_starting (stream_id b) (title b), Call_startStream (stream_id b)] @
     (case startStream svc (stream_id b) of
        Rejected err \<Rightarrow> []
      | Resolved result \<Rightarrow>
          [if success result then Log_started (stream_id b)
           else Error_failed_to_start (stream_id b) (error result)])"

text \<open>The timeout \<^verbatim>\<open>scheduleStreamTermination(sid, n)\<close> passes to \<^verbatim>\<open>setTimeout\<close>, lines 84
  to 95.\<close>

definition armed :: "string \<Rightarrow> jsnum \<Rightarrow> timeout" where
  "armed sid n =
     \<lparr>streamId = sid, clampedMinutes = Math_max (Finite 0) n,
      delay = js_times (js_times (Math_max (Finite 0) n) (Finite 60)) (Finite 1000)\<rparr>"

subsection \<open>Engines, tables and runs to evaluate the module on\<close>

text \<open>The state right after \<^verbatim>\<open>init(svc)\<close>: the engine stored, nothing armed.\<close>

definition after_init :: "engine \<Rightarrow> scheduler" where
  "after_init svc =
     \<lparr>streamingService = Some svc, scheduledTerminations = Map.empty, timers = Map.empty,
      nextTimerId = 0, trace = []\<rparr>"

text \<open>Three engines: one that does what it is asked; one that answers the start of \<open>C\<close>
  and every stop with \<^verbatim>\<open>{ success: false, error }\<close>; one whose start of \<open>C\<close> and whose
  stops reject.\<close>

definition accepting_engine :: engine where
  "accepting_engine =
     \<lparr>startStream = (\<lambda>sid. Resolved \<lparr>success = True, error = None\<rparr>),
      stopStream = (\<lambda>sid. Resolved \<lparr>success = True, error = None\<rparr>)\<rparr>"

definition refusing_engine :: engine where
  "refusing_engine =
     \<lparr>startStream = (\<lambda>sid. if sid = ''C''
                       then Resolved \<lparr>success = False, error = Some ''rtmp unreachable''\<rparr>
                       else Resolved \<lparr>success = True, error = None\<rparr>),
      stopStream = (\<lambda>sid. Resolved \<lparr>success = False, error = Some ''not running''\<rparr>)\<rparr>"

definition throwing_engine :: engine where
  "throwing_engine =
     \<lparr>startStream = (\<lambda>sid. if sid = ''C'' then Rejected ''rtmp unreachable''
                       else Resolved \<lparr>success = True, error = None\<rparr>),
      stopStream = (\<lambda>sid. Rejected ''stop failed'')\<rparr>"

definition live_stream :: "string \<Rightarrow> int option \<Rightarrow> int option \<Rightarrow> stream" where
  "live_stream sid d st =
     \<lparr>stream_id = sid, title = ''demo'', schedule_time = None, duration = d, status = Live,
      start_time = st\<rparr>"

definition scheduled_stream :: "string \<Rightarrow> int \<Rightarrow> stream" where
  "scheduled_stream sid t =
     \<lparr>stream_id = sid, title = ''demo'', schedule_time = Some t, duration = None,
      status = Scheduled, start_time = None\<rparr>"

text \<open>Four live streams that went live at the instant \<open>0\<close>: \<open>A\<close> has no duration, \<open>B\<close>
  ten minutes, \<open>Z\<close> the duration \<open>0\<close>, and \<open>U\<close> ten minutes and no start time. The run:
  a tick of the watchdog after nine minutes, \<open>B\<close> armed again from outside, its timeout
  fires, a tick of the poller, a tick of the watchdog after eleven minutes, and \<open>B\<close>
  cancelled.\<close>

definition demo_rows :: "stream list" where
  "demo_rows =
     [live_stream ''A'' None (Some 0),
      live_stream ''B'' (Some 10) (Some 0),
      live_stream ''Z'' (Some 0) (Some 0),
      live_stream ''U'' (Some 10) None]"

definition demo_run :: "action list" where
  "demo_run =
     [Watch (spec_repository demo_rows) (\<lambda>i. 540000),
      Arm ''B'' (JNumber (Finite 2)),
      Fire 1,
      Poll (spec_repository demo_rows) 600000,
      Watch (spec_repository demo_rows) (\<lambda>i. 660000),
      Cancel ''B'']"

text \<open>Two streams due thirty seconds after the instant \<open>0\<close>, \<open>C\<close> before \<open>D\<close>.\<close>

definition due_rows :: "stream list" where
  "due_rows = [scheduled_stream ''C'' 30000, scheduled_stream ''D'' 30000]"

text \<open>Three streams around the horizon of a tick of the poller at the instant \<open>1000\<close>:
  \<open>N\<close> is due at that instant, \<open>H\<close> sixty seconds later, \<open>L\<close> one second after \<open>H\<close>.\<close>

definition window_rows :: "stream list" where
  "window_rows =
     [scheduled_stream ''N'' 1000, scheduled_stream ''H'' 61000, scheduled_stream ''L'' 62000]"


section \<open>Properties\<close>

subsection \<open>Doubles\<close>

lemma round_half_even_int [simp]: "round_half_even (of_int j) = j"
  by (simp add: round_half_even_def)

lemma round_double_zero [simp]: "round_double 0 = Finite 0"
  by (simp add: round_double_def)

lemma round_double_not_NaN [simp]: "round_double r \<noteq> NaN"
  by (simp add: round_double_def Let_def pow2_def)

lemma binary_exponent_int:
  assumes "0 < m" and "m < 9007199254740992"
  shows "binary_exponent (of_int m) \<le> 52"
proof -
  from assms have "m < 2 ^ nat 53" by simp
  then have "bitlen m \<le> 53"
    by (simp add: bitlen_le_iff_power)
  moreover have "bitlen 1 = 1"
    by (simp add: bitlen_alt_def)
  ultimately show ?thesis
    by (simp add: binary_exponent_def Let_def)
qed

text \<open>Every integer below \<open>2^53\<close> in magnitude is a double: rounding leaves it as it is.\<close>

lemma round_double_positive_int:
  assumes "0 < m" and "m < 9007199254740992"
  shows "round_double (of_int m) = Finite (of_int m)"
    and "round_double (- of_int m) = Finite (- of_int m)"
proof -
  define e where "e = max (binary_exponent (of_int m)) (- 1022)"
  define n where "n = nat (52 - e)"
  from binary_exponent_int [OF assms] have e: "e \<le> 52" by (simp add: e_def)
  have ulp: "pow2 (e - 52) = 1 / 2 ^ n"
    using e by (auto simp: pow2_def n_def)
  have scaled: "of_int m / pow2 (e - 52) = (of_int (m * 2 ^ n) :: rat)"
    by (simp add: ulp)
  have rounded:
    "of_int (round_half_even (of_int m / pow2 (e - 52))) * pow2 (e - 52) = (of_int m :: rat)"
    unfolding scaled round_half_even_int by (simp add: ulp)
  have small: "\<not> pow2 1024 \<le> (of_int m :: rat)"
  proof -
    have "(of_int m :: rat) < 2 ^ 53" using assms(2) by simp
    also have "\<dots> \<le> 2 ^ 1024" by (rule power_increasing) simp_all
    finally show ?thesis by (simp add: pow2_def)
  qed
  have pos: "(0 :: rat) < of_int m" using assms(1) by simp
  show "round_double (of_int m) = Finite (of_int m)"
    using pos small rounded unfolding round_double_def Let_def
    by (simp add: e_def [symmetric])
  show "round_double (- of_int m) = Finite (- of_int m)"
    using pos small rounded unfolding round_double_def Let_def
    by (simp add: e_def [symmetric])
qed

lemma round_double_of_int:
  assumes "\<bar>k\<bar> < 9007199254740992"
  shows "round_double (of_int k) = Finite (of_int k)"
proof -
  consider "k = 0" | "0 < k" | "k < 0" by linarith
  then show ?thesis
  proof cases
    case 1
    then show ?thesis by simp
  next
    case 2
    with assms round_double_positive_int(1) [of k] show ?thesis by simp
  next
    case 3
    with assms round_double_positive_int(2) [of "- k"] show ?thesis by simp
  qed
qed

lemma round_double_numeral [simp]:
  "(numeral k :: int) < 9007199254740992 \<Longrightarrow> round_double (numeral k) = Finite (numeral k)"
  using round_double_of_int [of "numeral k"] by simp

lemma round_double_neg_numeral [simp]:
  "(numeral k :: int) < 9007199254740992 \<Longrightarrow> round_double (- numeral k) = Finite (- numeral k)"
  using round_double_of_int [of "- numeral k"] by simp

lemma round_double_one [simp]: "round_double 1 = Finite 1"
  using round_double_of_int [of 1] by simp

lemma Date_new_of_int:
  "\<bar>k\<bar> \<le> 8640000000000000 \<Longrightarrow> Date_new (Finite (of_int k)) = Finite (of_int k)"
proof -
  assume "\<bar>k\<bar> \<le> 8640000000000000"
  then have "\<not> (8640000000000000 :: rat) < \<bar>of_int k\<bar>"
    by (metis of_int_abs of_int_less_iff of_int_numeral not_less)
  then show ?thesis by simp
qed

lemma Date_new_invalid:
  "8640000000000000 < \<bar>k\<bar> \<Longrightarrow> Date_new (Finite (of_int k)) = NaN"
proof -
  assume "8640000000000000 < \<bar>k\<bar>"
  then have "(8640000000000000 :: rat) < \<bar>of_int k\<bar>"
    by (metis of_int_abs of_int_less_iff of_int_numeral)
  then show ?thesis by simp
qed

declare Date_new.simps [simp del]

lemma js_minus_ints:
  assumes "\<bar>a - b\<bar> < 9007199254740992"
  shows "js_minus (Finite (of_int a)) (Finite (of_int b)) = Finite (of_int (a - b))"
proof -
  have "js_minus (Finite (of_int a)) (Finite (of_int b)) = round_double (of_int a + - of_int b)"
    by (simp only: js_minus_def js_negate.simps js_plus.simps)
  also have "of_int a + - of_int b = (of_int (a - b) :: rat)" by simp
  finally show ?thesis by (simp only: round_double_of_int [OF assms])
qed

lemma shouldEndAt_sum:
  assumes "\<bar>st\<bar> \<le> 8640000000000000" and "\<bar>d\<bar> * 60000 < 9007199254740992"
    and "\<bar>st + d * 60000\<bar> < 9007199254740992"
  shows "js_plus (Date_new (Finite (of_int st)))
           (js_times (js_times (round_double (of_int d)) (Finite 60)) (Finite 1000)) =
         Finite (of_int (st + d * 60000))"
proof -
  have d: "\<bar>d\<bar> < 9007199254740992" "\<bar>d * 60\<bar> < 9007199254740992"
    "\<bar>d * 60000\<bar> < 9007199254740992"
    using assms(2) by (simp_all add: abs_mult)
  have "js_times (round_double (of_int d)) (Finite 60) = round_double (of_int d * 60)"
    by (simp only: round_double_of_int [OF d(1)] js_times.simps)
  also have "of_int d * 60 = (of_int (d * 60) :: rat)" by simp
  finally have minutes: "js_times (round_double (of_int d)) (Finite 60) = Finite (of_int (d * 60))"
    by (simp only: round_double_of_int [OF d(2)])
  have "js_times (Finite (of_int (d * 60))) (Finite 1000) = round_double (of_int (d * 60) * 1000)"
    by (simp only: js_times.simps)
  also have "of_int (d * 60) * 1000 = (of_int (d * 60000) :: rat)" by simp
  finally have ms: "js_times (Finite (of_int (d * 60))) (Finite 1000) = Finite (of_int (d * 60000))"
    by (simp only: round_double_of_int [OF d(3)])
  have "js_plus (Finite (of_int st)) (Finite (of_int (d * 60000))) =
      round_double (of_int st + of_int (d * 60000))"
    by (simp only: js_plus.simps)
  also have "of_int st + of_int (d * 60000) = (of_int (st + d * 60000) :: rat)" by simp
  finally have sum: "js_plus (Finite (of_int st)) (Finite (of_int (d * 60000))) =
      Finite (of_int (st + d * 60000))"
    by (simp only: round_double_of_int [OF assms(3)])
  show ?thesis
    by (simp only: minutes ms Date_new_of_int [OF assms(1)] sum)
qed

subsection \<open>Projections of the state\<close>

lemma emit_fields [simp]:
  "streamingService (emit e s) = streamingService s"
  "scheduledTerminations (emit e s) = scheduledTerminations s"
  "timers (emit e s) = timers s"
  "nextTimerId (emit e s) = nextTimerId s"
  "trace (emit e s) = trace s @ [e]"
  by (simp_all add: emit_def)


lemma clearTimeout_fields [simp]:
  "streamingService (clearTimeout h s) = streamingService s"
  "scheduledTerminations (clearTimeout h s) = scheduledTerminations s"
  "timers (clearTimeout h s) = (timers s)(h := None)"
  "nextTimerId (clearTimeout h s) = nextTimerId s"
  "trace (clearTimeout h s) = trace s"
  by (simp_all add: clearTimeout_def)

lemma Number_isNaN_JNumber [simp]: "Number_isNaN (JNumber n) \<longleftrightarrow> n = NaN"
  by (cases n) simp_all

lemma Math_max_nonpos: "r \<le> 0 \<Longrightarrow> Math_max (Finite 0) (Finite r) = Finite 0"
  by (auto simp: Math_max_def)

lemma Math_max_pos: "0 \<le> r \<Longrightarrow> Math_max (Finite 0) (Finite r) = Finite r"
  by (auto simp: Math_max_def)

lemma Math_max_infinite:
  "Math_max (Finite 0) NegInfinity = Finite 0"
  "Math_max (Finite 0) PosInfinity = PosInfinity"
  by (simp_all add: Math_max_def)

subsection \<open>What the functions of the registry do\<close>

lemma schedule_rejected:
  assumes "\<not> typeof_number d \<or> Number_isNaN d"
  shows "scheduleStreamTermination sid d s =
           emit (if streamingService s = None then Error_not_initialized
                 else Error_invalid_duration sid d) s"
  using assms by (auto simp: scheduleStreamTermination_def)

lemma armed_fields [simp]:
  "streamId (armed sid n) = sid"
  "clampedMinutes (armed sid n) = Math_max (Finite 0) n"
  "delay (armed sid n) = js_times (js_times (Math_max (Finite 0) n) (Finite 60)) (Finite 1000)"
  by (simp_all add: armed_def)

lemma schedule_accepted:
  assumes "streamingService s \<noteq> None" "n \<noteq> NaN"
  shows "scheduledTerminations (scheduleStreamTermination sid (JNumber n) s) =
           (scheduledTerminations s)(sid \<mapsto> nextTimerId s)"
    and "timers (scheduleStreamTermination sid (JNumber n) s) =
           (case scheduledTerminations s sid of
              Some old \<Rightarrow> ((timers s)(old := None))(nextTimerId s \<mapsto> armed sid n)
            | None \<Rightarrow> (timers s)(nextTimerId s \<mapsto> armed sid n))"
    and "nextTimerId (scheduleStreamTermination sid (JNumber n) s) = Suc (nextTimerId s)"
    and "trace (scheduleStreamTermination sid (JNumber n) s) =
           trace s @ [Log_scheduling sid (Math_max (Finite 0) n)]"
    and "streamingService (scheduleStreamTermination sid (JNumber n) s) = streamingService s"
  using assms
  by (auto simp: scheduleStreamTermination_def setTimeout_def armed_def Let_def
           split: option.splits)

lemma schedule_service [simp]:
  "streamingService (scheduleStreamTermination sid d s) = streamingService s"
  by (auto simp: scheduleStreamTermination_def setTimeout_def Let_def
           split: option.splits jsval.splits)

lemma stopCalls_emit [simp]:
  "stopCalls sid (emit e s) = (if e = Call_stopStream sid then Suc (stopCalls sid s) else stopCalls sid s)"
  by (simp add: stopCalls_def)

lemma stopCalls_schedule [simp]:
  "stopCalls sid (scheduleStreamTermination sid' d s) = stopCalls sid s"
  by (auto simp: scheduleStreamTermination_def setTimeout_def Let_def stopCalls_def
           split: option.splits jsval.splits)

lemma fireTimeout_service [simp]: "streamingService (fireTimeout h s) = streamingService s"
  by (simp add: fireTimeout_def Let_def split: option.splits outcome.splits)

lemma fireTimeout_resolved:
  assumes "timers s h = Some t" and "streamingService s = Some svc"
    and "stopStream svc (streamId t) = Resolved r"
  shows "scheduledTerminations (fireTimeout h s) = (scheduledTerminations s)(streamId t := None)"
    and "timers (fireTimeout h s) = (timers s)(h := None)"
    and "trace (fireTimeout h s) =
           trace s @ [Log_terminating (streamId t) (clampedMinutes t), Call_stopStream (streamId t)]"
  using assms by (simp_all add: fireTimeout_def Let_def)

lemma fireTimeout_rejected:
  assumes "timers s h = Some t" and "streamingService s = Some svc"
    and "stopStream svc (streamId t) = Rejected err"
  shows "scheduledTerminations (fireTimeout h s) = scheduledTerminations s"
    and "timers (fireTimeout h s) = (timers s)(h := None)"
    and "trace (fireTimeout h s) =
           trace s @ [Log_terminating (streamId t) (clampedMinutes t), Call_stopStream (streamId t),
                      Error_terminating (streamId t) err]"
  using assms by (simp_all add: fireTimeout_def Let_def)

text \<open>One call replaces: the timeout of the entry it finds is cleared, the entry is the new
  handle, and no other timeout changes.\<close>

lemma schedule_replaces:
  assumes "streamingService s \<noteq> None" and "n \<noteq> NaN"
    and "scheduledTerminations s sid = Some old" and "old < nextTimerId s"
  shows "timers (scheduleStreamTermination sid (JNumber n) s) old = None"
    and "scheduledTerminations (scheduleStreamTermination sid (JNumber n) s) sid =
           Some (nextTimerId s)"
    and "timers (scheduleStreamTermination sid (JNumber n) s) (nextTimerId s) =
           Some (armed sid n)"
    and "h \<noteq> old \<Longrightarrow> h \<noteq> nextTimerId s \<Longrightarrow>
           timers (scheduleStreamTermination sid (JNumber n) s) h = timers s h"
  using assms(3,4) by (simp_all add: schedule_accepted [OF assms(1,2)])

lemma fireTimeout_split:
  "fireTimeout h s =
     (case fireTimeoutAwait h s of
        (s1, None) \<Rightarrow> s1
      | (s1, Some suspended) \<Rightarrow> fireTimeoutResume suspended s1)"
  by (simp add: fireTimeout_def fireTimeoutAwait_def Let_def split: option.splits outcome.splits)

lemma fireTimeoutAwait_pending:
  assumes "timers s h = Some t" and "streamingService s = Some svc"
  shows "fireTimeoutAwait h s =
           (emit (Call_stopStream (streamId t))
              (emit (Log_terminating (streamId t) (clampedMinutes t)) (clearTimeout h s)),
            Some (streamId t, stopStream svc (streamId t)))"
  using assms by (simp add: fireTimeoutAwait_def Let_def)

lemma fireTimeoutResume_fields [simp]:
  "streamingService (fireTimeoutResume k s) = streamingService s"
  "timers (fireTimeoutResume k s) = timers s"
  "nextTimerId (fireTimeoutResume k s) = nextTimerId s"
  by (cases k; rename_tac sid out; case_tac out; simp)+

lemma rearm_during_await_pending:
  assumes "timers s h = Some t" and "streamingService s = Some svc"
  shows "rearm_during_await h sid n s =
           fireTimeoutResume (streamId t, stopStream svc (streamId t))
             (scheduleStreamTermination sid (JNumber n)
                (emit (Call_stopStream (streamId t))
                   (emit (Log_terminating (streamId t) (clampedMinutes t)) (clearTimeout h s))))"
  by (simp add: rearm_during_await_def fireTimeoutAwait_pending [OF assms])

subsection \<open>The invariant of the registry\<close>

lemma after_init_inv: "registry_inv (after_init svc)"
  by (simp add: registry_inv_def after_init_def)

lemma registry_inv_emit [simp]: "registry_inv (emit e s) = registry_inv s"
  by (simp add: registry_inv_def)

lemma registry_inv_schedule:
  assumes "registry_inv s"
  shows "registry_inv (scheduleStreamTermination sid d s)"
proof (cases "streamingService s \<noteq> None \<and> (\<exists>n. d = JNumber n \<and> n \<noteq> NaN)")
  case True
  then obtain n where d: "d = JNumber n" "n \<noteq> NaN" and svc: "streamingService s \<noteq> None"
    by blast
  show ?thesis
    using assms unfolding d registry_inv_def
    by (auto simp: schedule_accepted [OF svc d(2)] less_Suc_eq split: option.splits if_splits)
next
  case False
  then have "scheduleStreamTermination sid d s =
      emit (if streamingService s = None then Error_not_initialized
            else Error_invalid_duration sid d) s"
    by (cases d rule: Number_isNaN.cases)
       (auto simp: scheduleStreamTermination_def)
  with assms show ?thesis by simp
qed

lemma registry_inv_unique:
  assumes "registry_inv s" "timers s h = Some t" "timers s h' = Some t'" "streamId t = streamId t'"
  shows "h = h'"
proof -
  have "scheduledTerminations s (streamId t) = Some h"
    and "scheduledTerminations s (streamId t') = Some h'"
    using assms(1-3) by (simp_all add: registry_inv_def)
  with assms(4) show ?thesis by simp
qed

lemma registry_inv_fire:
  assumes "registry_inv s"
  shows "registry_inv (fireTimeout h s)"
proof (cases "timers s h")
  case None
  with assms show ?thesis by (simp add: fireTimeout_def)
next
  case (Some t)
  have others: "streamId t' \<noteq> streamId t" if "timers s h' = Some t'" "h' \<noteq> h" for h' t'
    using registry_inv_unique [OF assms Some that(1)] that(2) by auto
  show ?thesis
    using assms Some others unfolding registry_inv_def fireTimeout_def
    by (auto simp: Let_def split: option.splits outcome.splits if_splits)
qed

lemma registry_inv_cancel:
  assumes "registry_inv s"
  shows "registry_inv (snd (cancelStreamTermination sid s))"
  using assms unfolding registry_inv_def cancelStreamTermination_def
  by (auto simp: Let_def split: option.splits if_splits)

subsection \<open>The poller leaves the registry alone\<close>

lemma startLoop_frame:
  "scheduledTerminations (fst (startLoop bs s)) = scheduledTerminations s \<and>
   timers (fst (startLoop bs s)) = timers s \<and>
   nextTimerId (fst (startLoop bs s)) = nextTimerId s \<and>
   streamingService (fst (startLoop bs s)) = streamingService s"
  by (induction bs arbitrary: s) (auto simp: Let_def split: option.splits outcome.splits)

lemma checkScheduledStreams_frame:
  "scheduledTerminations (checkScheduledStreams Stream now s) = scheduledTerminations s \<and>
   timers (checkScheduledStreams Stream now s) = timers s \<and>
   nextTimerId (checkScheduledStreams Stream now s) = nextTimerId s \<and>
   streamingService (checkScheduledStreams Stream now s) = streamingService s"
proof -
  have "\<And>bs s0. startLoop bs s0 = (fst (startLoop bs s0), snd (startLoop bs s0))" by simp
  then show ?thesis
    unfolding checkScheduledStreams_def
    by (auto simp: Let_def startLoop_frame split: option.splits outcome.splits prod.splits)
      (metis fst_conv startLoop_frame emit_fields)+
qed

lemma startLoop_stopCalls: "stopCalls sid (fst (startLoop bs s)) = stopCalls sid s"
  by (induction bs arbitrary: s) (auto simp: Let_def split: option.splits outcome.splits)

lemma checkScheduledStreams_stopCalls:
  "stopCalls sid (checkScheduledStreams Stream now s) = stopCalls sid s"
proof -
  have "stopCalls sid s2 = stopCalls sid s0" if "startLoop bs s0 = (s2, x)" for bs s0 s2 x
    using startLoop_stopCalls [of sid bs s0] that by simp
  then show ?thesis
    unfolding checkScheduledStreams_def
    by (auto simp: Let_def split: option.splits outcome.splits prod.splits)
qed

lemma registry_inv_checkScheduledStreams:
  "registry_inv s \<Longrightarrow> registry_inv (checkScheduledStreams Stream now s)"
  using checkScheduledStreams_frame [of Stream now s] by (simp add: registry_inv_def)

lemma startCalls_append [simp]: "startCalls (es @ es') = startCalls es @ startCalls es'"
  by (induction es rule: startCalls.induct) simp_all

lemma startLoop_calls:
  assumes "streamingService s = Some svc"
  shows "startCalls (trace (fst (startLoop bs s))) =
         startCalls (trace s) @
         map stream_id
           (take (Suc (length (takeWhile (\<lambda>b. resolved (startStream svc (stream_id b))) bs))) bs)"
  using assms
proof (induction bs arbitrary: s)
  case Nil
  then show ?case by simp
next
  case (Cons b bs)
  show ?case
  proof (cases "startStream svc (stream_id b)")
    case (Rejected err)
    with Cons.prems show ?thesis by (simp add: Let_def)
  next
    case (Resolved r)
    let ?s' = "emit (if success r then Log_started (stream_id b)
                     else Error_failed_to_start (stream_id b) (error r))
                 (emit (Call_startStream (stream_id b))
                   (emit (Log_starting (stream_id b) (title b)) s))"
    have svc: "streamingService ?s' = Some svc" using Cons.prems by simp
    have "startLoop (b # bs) s = startLoop bs ?s'"
      using Cons.prems Resolved by (simp add: Let_def)
    with Cons.IH [OF svc] Resolved show ?thesis by simp
  qed
qed

lemma startLoop_extends: "\<exists>es. trace (fst (startLoop bs s)) = trace s @ es"
proof (induction bs arbitrary: s)
  case Nil
  then show ?case by simp
next
  case (Cons b bs)
  have step: "\<exists>es. trace (fst (startLoop bs (emit e3 (emit e2 (emit e1 s))))) = trace s @ es"
    for e1 e2 e3
    using Cons.IH [of "emit e3 (emit e2 (emit e1 s))"] by auto
  show ?case
    by (auto simp: Let_def step split: option.splits outcome.splits)
qed

lemma checkScheduledStreams_queries:
  assumes "streamingService s \<noteq> None"
  shows "\<exists>rest. trace (checkScheduledStreams Stream now s) =
           trace s @ Call_findScheduledInRange now (lookAheadTime now) # rest"
proof (cases "findScheduledInRange Stream now (lookAheadTime now)")
  case (Rejected err)
  with assms show ?thesis by (simp add: checkScheduledStreams_def Let_def)
next
  case (Resolved streams)
  let ?s1 = "emit (Log_found (length streams))
               (emit (Call_findScheduledInRange now (lookAheadTime now)) s)"
  obtain s2 x where loop: "startLoop streams ?s1 = (s2, x)"
    by (cases "startLoop streams ?s1")
  from startLoop_extends [of streams ?s1] loop
  obtain es where "trace s2 = trace ?s1 @ es" by auto
  with assms Resolved loop show ?thesis
    by (cases x) (auto simp: checkScheduledStreams_def Let_def)
qed

lemma checkScheduledStreams_unfold:
  assumes "streamingService s = Some svc"
    and "findScheduledInRange Stream now (lookAheadTime now) = Resolved streams"
    and "startLoop streams
           (emit (Log_found (length streams))
             (emit (Call_findScheduledInRange now (lookAheadTime now)) s)) = (s2, x)"
  shows "checkScheduledStreams Stream now s =
      (if streams = [] then emit (Call_findScheduledInRange now (lookAheadTime now)) s
       else case x of None \<Rightarrow> s2 | Some err \<Rightarrow> emit (Error_checking_scheduled err) s2)"
  using assms by (simp add: checkScheduledStreams_def Let_def)

lemma checkScheduledStreams_calls:
  assumes "streamingService s = Some svc"
    and "findScheduledInRange Stream now (lookAheadTime now) = Resolved streams"
  shows "startCalls (trace (checkScheduledStreams Stream now s)) =
           startCalls (trace s) @
           map stream_id
             (take (Suc (length (takeWhile (\<lambda>b. resolved (startStream svc (stream_id b))) streams)))
                streams)"
proof -
  let ?s1 = "emit (Log_found (length streams))
               (emit (Call_findScheduledInRange now (lookAheadTime now)) s)"
  have svc1: "streamingService ?s1 = Some svc" using assms(1) by simp
  obtain s2 x where loop: "startLoop streams ?s1 = (s2, x)"
    by (cases "startLoop streams ?s1")
  note tick = checkScheduledStreams_unfold [OF assms loop]
  have "startCalls (trace s2) =
      startCalls (trace s) @
      map stream_id
        (take (Suc (length (takeWhile (\<lambda>b. resolved (startStream svc (stream_id b))) streams)))
           streams)"
    using startLoop_calls [OF svc1, of streams] loop by simp
  with tick show ?thesis by (cases x) auto
qed

lemma take_all_resolved:
  assumes "list_all ok streams"
  shows "take (Suc (length (takeWhile ok streams))) streams = streams"
proof -
  from assms have whole: "takeWhile ok streams = streams"
    by (simp add: list_all_iff takeWhile_eq_all_conv)
  show ?thesis unfolding whole by simp
qed

lemma startCalls_start_events:
  "startCalls (concat (map (start_events svc) bs)) = map stream_id bs"
  by (induction bs) (simp_all add: start_events_def split: outcome.splits)

text \<open>The loop over streams whose starts all resolve, and the loop up to a start that
  rejects.\<close>

lemma startLoop_resolved:
  assumes "streamingService s = Some svc"
    and "list_all (\<lambda>b. resolved (startStream svc (stream_id b))) bs"
  shows "startLoop bs s = (s\<lparr>trace := trace s @ concat (map (start_events svc) bs)\<rparr>, None)"
  using assms
proof (induction bs arbitrary: s)
  case Nil
  then show ?case by simp
next
  case (Cons b bs)
  from Cons.prems(2) obtain r where r: "startStream svc (stream_id b) = Resolved r"
    by (cases "startStream svc (stream_id b)") simp_all
  let ?s' = "s\<lparr>trace := trace s @ start_events svc b\<rparr>"
  have step: "startLoop (b # bs) s = startLoop bs ?s'"
    using Cons.prems(1) r by (simp add: Let_def start_events_def emit_def)
  have svc: "streamingService ?s' = Some svc" using Cons.prems(1) by simp
  from Cons.prems(2) have rest: "list_all (\<lambda>b. resolved (startStream svc (stream_id b))) bs"
    by simp
  from Cons.IH [OF svc rest] step show ?case by simp
qed

lemma startLoop_rejected:
  assumes "streamingService s = Some svc"
    and "list_all (\<lambda>b. resolved (startStream svc (stream_id b))) pre"
    and "startStream svc (stream_id c) = Rejected err"
  shows "startLoop (pre @ c # post) s =
           (s\<lparr>trace := trace s @ concat (map (start_events svc) pre) @
                        [Log_starting (stream_id c) (title c), Call_startStream (stream_id c)]\<rparr>,
            Some err)"
  using assms(1,2)
proof (induction pre arbitrary: s)
  case Nil
  with assms(3) show ?case by (simp add: Let_def emit_def)
next
  case (Cons b bs)
  from Cons.prems(2) obtain r where r: "startStream svc (stream_id b) = Resolved r"
    by (cases "startStream svc (stream_id b)") simp_all
  let ?s' = "s\<lparr>trace := trace s @ start_events svc b\<rparr>"
  have step: "startLoop ((b # bs) @ c # post) s = startLoop (bs @ c # post) ?s'"
    using Cons.prems(1) r by (simp add: Let_def start_events_def emit_def)
  have svc: "streamingService ?s' = Some svc" using Cons.prems(1) by simp
  from Cons.prems(2) have rest: "list_all (\<lambda>b. resolved (startStream svc (stream_id b))) bs"
    by simp
  from Cons.IH [OF svc rest] step show ?case by simp
qed

subsection \<open>The watchdog, stream by stream\<close>

lemma checkStreamDuration_skipped: "skipped b \<Longrightarrow> checkStreamDuration now b s = (s, None)"
  by (auto simp: skipped_def checkStreamDuration_def split: option.splits)

lemma checkStreamDuration_tracked:
  "scheduledTerminations s (stream_id b) \<noteq> None \<Longrightarrow> checkStreamDuration now b s = (s, None)"
  by (auto simp: checkStreamDuration_def split: option.splits)

lemma schedule_other:
  "sid' \<noteq> sid \<Longrightarrow>
   scheduledTerminations (scheduleStreamTermination sid' d s) sid = scheduledTerminations s sid"
  by (auto simp: scheduleStreamTermination_def setTimeout_def Let_def
           split: option.splits jsval.splits)

lemma schedule_absent_timers:
  "scheduledTerminations s sid = None \<Longrightarrow> h < nextTimerId s \<Longrightarrow>
   timers (scheduleStreamTermination sid d s) h = timers s h"
  by (auto simp: scheduleStreamTermination_def setTimeout_def Let_def split: jsval.splits)

lemma schedule_nextTimerId:
  "nextTimerId s \<le> nextTimerId (scheduleStreamTermination sid d s)"
  by (auto simp: scheduleStreamTermination_def setTimeout_def Let_def
           split: option.splits jsval.splits)

lemma schedule_extends: "\<exists>es. trace (scheduleStreamTermination sid d s) = trace s @ es"
  by (auto simp: scheduleStreamTermination_def setTimeout_def Let_def
           split: option.splits jsval.splits)

text \<open>What one iteration of the loop can be: nothing, or, for a stream without an entry,
  a stop (which may throw) or a call of \<^verbatim>\<open>scheduleStreamTermination\<close>.\<close>

lemma checkStreamDuration_shape:
  "checkStreamDuration now b s = (s, None) \<or>
   scheduledTerminations s (stream_id b) = None \<and>
   (checkStreamDuration now b s = (emit (Log_exceeded (stream_id b)) s, Some ''TypeError'') \<or>
    (\<exists>x. checkStreamDuration now b s =
       (emit (Call_stopStream (stream_id b)) (emit (Log_exceeded (stream_id b)) s), x)) \<or>
    (\<exists>n. checkStreamDuration now b s =
       (scheduleStreamTermination (stream_id b) (JNumber n) s, None)))"
  unfolding checkStreamDuration_def Let_def
  by (simp split: option.splits outcome.splits) blast

lemma registry_inv_checkStreamDuration:
  "registry_inv s \<Longrightarrow> registry_inv (fst (checkStreamDuration now b s))"
  using checkStreamDuration_shape [of now b s] by (auto simp: registry_inv_schedule)


lemma checkStreamDuration_other:
  assumes "stream_id b \<noteq> sid"
  shows "scheduledTerminations (fst (checkStreamDuration now b s)) sid = scheduledTerminations s sid"
    and "stopCalls sid (fst (checkStreamDuration now b s)) = stopCalls sid s"
  using checkStreamDuration_shape [of now b s] assms by (auto simp: schedule_other)

lemma checkStreamDuration_keeps_entry:
  assumes "scheduledTerminations s sid \<noteq> None"
  shows "scheduledTerminations (fst (checkStreamDuration now b s)) sid = scheduledTerminations s sid"
proof (cases "stream_id b = sid")
  case True
  with assms show ?thesis by (simp add: checkStreamDuration_tracked)
next
  case False
  then show ?thesis by (rule checkStreamDuration_other)
qed

lemma checkStreamDuration_keeps_timers:
  assumes "h < nextTimerId s"
  shows "timers (fst (checkStreamDuration now b s)) h = timers s h"
    and "nextTimerId s \<le> nextTimerId (fst (checkStreamDuration now b s))"
  using checkStreamDuration_shape [of now b s] assms
  by (auto simp: schedule_absent_timers schedule_nextTimerId)

lemma checkStreamDuration_extends:
  "\<exists>es. trace (fst (checkStreamDuration now b s)) = trace s @ es"
  using checkStreamDuration_shape [of now b s] schedule_extends [of "stream_id b" _ s]
  by (auto simp: emit_def)

lemma durationsLoop_reaches:
  "durationsLoop clock i (pre @ b # post) s =
     (case durationsLoop clock i pre s of
        (s1, Some err) \<Rightarrow> (s1, Some err)
      | (s1, None) \<Rightarrow>
          (case checkStreamDuration (clock (i + length pre)) b s1 of
             (s2, Some err) \<Rightarrow> (s2, Some err)
           | (s2, None) \<Rightarrow> durationsLoop clock (Suc (i + length pre)) post s2))"
  by (induction pre arbitrary: i s) (auto split: prod.splits option.splits)

lemma durationsLoop_inv:
  "registry_inv s \<Longrightarrow> registry_inv (fst (durationsLoop clock i bs s))"
proof (induction bs arbitrary: s i)
  case Nil
  then show ?case by simp
next
  case (Cons b bs)
  obtain s1 x where step: "checkStreamDuration (clock i) b s = (s1, x)"
    by (cases "checkStreamDuration (clock i) b s")
  with registry_inv_checkStreamDuration [OF Cons.prems, of "clock i" b]
  have "registry_inv s1" by simp
  with Cons.IH step show ?case by (cases x) simp_all
qed

lemma durationsLoop_untouched:
  assumes "list_all (\<lambda>b. stream_id b \<noteq> sid \<or> skipped b) bs"
  shows "scheduledTerminations (fst (durationsLoop clock i bs s)) sid = scheduledTerminations s sid \<and>
         stopCalls sid (fst (durationsLoop clock i bs s)) = stopCalls sid s"
  using assms
proof (induction bs arbitrary: s i)
  case Nil
  then show ?case by simp
next
  case (Cons b bs)
  obtain s1 x where step: "checkStreamDuration (clock i) b s = (s1, x)"
    by (cases "checkStreamDuration (clock i) b s")
  have same: "scheduledTerminations s1 sid = scheduledTerminations s sid \<and>
              stopCalls sid s1 = stopCalls sid s"
  proof (cases "skipped b")
    case True
    with step show ?thesis by (simp add: checkStreamDuration_skipped)
  next
    case False
    with Cons.prems have "stream_id b \<noteq> sid" by simp
    from checkStreamDuration_other [OF this, of "clock i" s] step show ?thesis by simp
  qed
  from Cons.prems have rest: "list_all (\<lambda>b. stream_id b \<noteq> sid \<or> skipped b) bs" by simp
  show ?case
  proof (cases x)
    case None
    with step Cons.IH [OF rest, of "Suc i" s1] same show ?thesis by simp
  next
    case (Some err)
    with step same show ?thesis by simp
  qed
qed

lemma registry_inv_checkStreamDurations:
  assumes "registry_inv s"
  shows "registry_inv (checkStreamDurations Stream clock s)"
proof -
  have "registry_inv s2"
    if "durationsLoop clock 0 bs (emit e s) = (s2, x)" for bs e s2 x
    using durationsLoop_inv [of "emit e s" clock 0 bs] assms that by simp
  then show ?thesis
    using assms unfolding checkStreamDurations_def
    by (auto simp: Let_def split: outcome.splits prod.splits option.splits)
qed

lemma checkStreamDurations_untouched:
  assumes "watch_skips sid (Watch Stream clock)"
  shows "scheduledTerminations (checkStreamDurations Stream clock s) sid = scheduledTerminations s sid \<and>
         stopCalls sid (checkStreamDurations Stream clock s) = stopCalls sid s"
proof -
  have "scheduledTerminations s2 sid = scheduledTerminations s sid \<and> stopCalls sid s2 = stopCalls sid s"
    if "durationsLoop clock 0 bs (emit (Call_findAll None (Some Live)) s) = (s2, x)"
       "list_all (\<lambda>b. stream_id b \<noteq> sid \<or> skipped b) bs" for bs s2 x
    using durationsLoop_untouched [OF that(2), of clock 0 "emit (Call_findAll None (Some Live)) s"]
      that(1) by simp
  then show ?thesis
    using assms unfolding checkStreamDurations_def
    by (auto simp: Let_def split: outcome.splits prod.splits option.splits)
qed

lemma checkStreamDuration_in_range:
  assumes "duration b = Some d" and "d \<noteq> 0" and "start_time b = Some st"
    and "scheduledTerminations s (stream_id b) = None"
    and "\<bar>st\<bar> \<le> 8640000000000000" and "\<bar>d\<bar> * 60000 < 9007199254740992"
    and "\<bar>st + d * 60000\<bar> < 9007199254740992"
    and "0 \<le> now" and "now \<le> 8640000000000000"
  shows "\<bar>st + d * 60000\<bar> \<le> 8640000000000000 \<Longrightarrow> st + d * 60000 \<le> now \<Longrightarrow>
           streamingService s = Some svc \<Longrightarrow>
           checkStreamDuration now b s =
             (emit (Call_stopStream (stream_id b)) (emit (Log_exceeded (stream_id b)) s),
              case stopStream svc (stream_id b) of
                Rejected err \<Rightarrow> Some err | Resolved result \<Rightarrow> None)"
    and "\<bar>st + d * 60000\<bar> \<le> 8640000000000000 \<Longrightarrow> now < st + d * 60000 \<Longrightarrow>
           checkStreamDuration now b s =
             (scheduleStreamTermination (stream_id b)
                (JNumber (round_double (of_int (st + d * 60000 - now) / 60000))) s, None)"
    and "8640000000000000 < \<bar>st + d * 60000\<bar> \<Longrightarrow>
           checkStreamDuration now b s =
             (scheduleStreamTermination (stream_id b) (JNumber NaN) s, None)"
proof -
  note sum = shouldEndAt_sum [OF assms(5,6,7)]
  have nowTime: "Date_new (Finite (of_int now)) = Finite (of_int now)"
    using assms(8,9) by (simp add: Date_new_of_int)
  have unfold: "checkStreamDuration now b s =
      (let shouldEndAt = Date_new (Finite (of_int (st + d * 60000)));
           nowTime = Finite (of_int now)
       in if js_le shouldEndAt nowTime then
            (let s1 = emit (Log_exceeded (stream_id b)) s in
             case streamingService s1 of
               None \<Rightarrow> (s1, Some ''TypeError'')
             | Some svc \<Rightarrow>
                 (let s2 = emit (Call_stopStream (stream_id b)) s1 in
                  case stopStream svc (stream_id b) of
                    Rejected err \<Rightarrow> (s2, Some err)
                  | Resolved result \<Rightarrow> (s2, None)))
          else
            (scheduleStreamTermination (stream_id b)
               (JNumber (js_divide (js_minus shouldEndAt nowTime) (Finite 60000))) s, None))"
    using assms(1-4) unfolding checkStreamDuration_def Let_def
    by (simp add: sum nowTime)
  {
    assume valid: "\<bar>st + d * 60000\<bar> \<le> 8640000000000000"
    note expiry = Date_new_of_int [OF valid]
    {
      assume "st + d * 60000 \<le> now" and "streamingService s = Some svc"
      then show "checkStreamDuration now b s =
             (emit (Call_stopStream (stream_id b)) (emit (Log_exceeded (stream_id b)) s),
              case stopStream svc (stream_id b) of
                Rejected err \<Rightarrow> Some err | Resolved result \<Rightarrow> None)"
        unfolding unfold expiry Let_def by (simp split: outcome.splits)
    }
    {
      assume later: "now < st + d * 60000"
      then have left: "\<bar>st + d * 60000 - now\<bar> < 9007199254740992"
        using valid assms(8) by linarith
      note js_minus_ints [OF left]
      then show "checkStreamDuration now b s =
             (scheduleStreamTermination (stream_id b)
                (JNumber (round_double (of_int (st + d * 60000 - now) / 60000))) s, None)"
        unfolding unfold expiry Let_def using later by simp
    }
  }
  {
    assume "8640000000000000 < \<bar>st + d * 60000\<bar>"
    note expiry = Date_new_invalid [OF this]
    show "checkStreamDuration now b s =
             (scheduleStreamTermination (stream_id b) (JNumber NaN) s, None)"
      unfolding unfold expiry Let_def by (simp add: js_minus_def)
  }
qed


lemma durationsLoop_keeps_entry:
  "scheduledTerminations s sid \<noteq> None \<Longrightarrow>
     scheduledTerminations (fst (durationsLoop clock i bs s)) sid = scheduledTerminations s sid"
proof (induction bs arbitrary: s i)
  case Nil
  then show ?case by simp
next
  case (Cons b bs)
  obtain s1 x where step: "checkStreamDuration (clock i) b s = (s1, x)"
    by (cases "checkStreamDuration (clock i) b s")
  from checkStreamDuration_keeps_entry [OF Cons.prems, of "clock i" b] step
  have entry: "scheduledTerminations s1 sid = scheduledTerminations s sid" by simp
  with Cons.prems have "scheduledTerminations s1 sid \<noteq> None" by simp
  from Cons.IH [OF this, of "Suc i"] entry step show ?case by (cases x) simp_all
qed

lemma durationsLoop_keeps_timers:
  "h < nextTimerId s \<Longrightarrow> timers (fst (durationsLoop clock i bs s)) h = timers s h"
proof (induction bs arbitrary: s i)
  case Nil
  then show ?case by simp
next
  case (Cons b bs)
  obtain s1 x where step: "checkStreamDuration (clock i) b s = (s1, x)"
    by (cases "checkStreamDuration (clock i) b s")
  from checkStreamDuration_keeps_timers [OF Cons.prems, of "clock i" b] step Cons.prems
  have timer: "timers s1 h = timers s h" and later: "h < nextTimerId s1" by simp_all
  from Cons.IH [OF later, of "Suc i"] timer step show ?case by (cases x) simp_all
qed

lemma durationsLoop_extends:
  "\<exists>es. trace (fst (durationsLoop clock i bs s)) = trace s @ es"
proof (induction bs arbitrary: s i)
  case Nil
  then show ?case by simp
next
  case (Cons b bs)
  obtain s1 x where step: "checkStreamDuration (clock i) b s = (s1, x)"
    by (cases "checkStreamDuration (clock i) b s")
  from checkStreamDuration_extends [of "clock i" b s] step
  obtain es where first: "trace s1 = trace s @ es" by auto
  from Cons.IH [of "Suc i" s1]
  obtain es' where "trace (fst (durationsLoop clock (Suc i) bs s1)) = trace s1 @ es'" by blast
  with first step show ?case by (cases x) simp_all
qed

text \<open>A tick in which the loop reaches the stream \<open>b\<close> in the state \<open>sb\<close> and leaves it in
  \<open>sb'\<close>: what the rest of the tick keeps of \<open>sb'\<close>.\<close>

lemma checkStreamDurations_after:
  assumes "streamingService s \<noteq> None"
    and "findAll Stream None (Some Live) = Resolved (pre @ b # post)"
    and "durationsLoop clock 0 pre (emit (Call_findAll None (Some Live)) s) = (sb, None)"
    and "checkStreamDuration (clock (length pre)) b sb = (sb', x)"
  shows "durationsLoop clock 0 (pre @ [b]) (emit (Call_findAll None (Some Live)) s) = (sb', x)"
    and "\<exists>es. trace (checkStreamDurations Stream clock s) = trace sb' @ es"
    and "scheduledTerminations sb' sid \<noteq> None \<Longrightarrow>
           scheduledTerminations (checkStreamDurations Stream clock s) sid =
             scheduledTerminations sb' sid"
    and "h < nextTimerId sb' \<Longrightarrow> timers (checkStreamDurations Stream clock s) h = timers sb' h"
proof -
  let ?s1 = "emit (Call_findAll None (Some Live)) s"
  show "durationsLoop clock 0 (pre @ [b]) ?s1 = (sb', x)"
    using assms(3,4) by (cases x) (simp_all add: durationsLoop_reaches)
  obtain s2 y where rest: "durationsLoop clock (Suc (length pre)) post sb' = (s2, y)"
    by (cases "durationsLoop clock (Suc (length pre)) post sb'")
  define end_of where "end_of = (case x of None \<Rightarrow> s2 | Some err \<Rightarrow> sb')"
  have loop: "fst (durationsLoop clock 0 (pre @ b # post) ?s1) = end_of"
    using assms(3,4) rest by (cases x) (simp_all add: durationsLoop_reaches end_of_def)
  have tick: "checkStreamDurations Stream clock s = end_of \<or>
      (\<exists>err. checkStreamDurations Stream clock s = emit (Error_checking_durations err) end_of)"
    using assms(1,2) loop
    by (auto simp: checkStreamDurations_def Let_def split: prod.splits option.splits)
  have s2: "s2 = fst (durationsLoop clock (Suc (length pre)) post sb')" using rest by simp
  from durationsLoop_extends [of clock "Suc (length pre)" post sb']
  have "\<exists>es. trace end_of = trace sb' @ es"
    unfolding end_of_def s2 by (cases x) simp_all
  with tick show "\<exists>es. trace (checkStreamDurations Stream clock s) = trace sb' @ es"
    by auto
  {
    assume "scheduledTerminations sb' sid \<noteq> None"
    from durationsLoop_keeps_entry [OF this, of clock "Suc (length pre)" post]
    have "scheduledTerminations end_of sid = scheduledTerminations sb' sid"
      unfolding end_of_def s2 by (cases x) simp_all
    with tick show "scheduledTerminations (checkStreamDurations Stream clock s) sid =
        scheduledTerminations sb' sid"
      by auto
  }
  {
    assume "h < nextTimerId sb'"
    from durationsLoop_keeps_timers [OF this, of clock "Suc (length pre)" post]
    have "timers end_of h = timers sb' h"
      unfolding end_of_def s2 by (cases x) simp_all
    with tick show "timers (checkStreamDurations Stream clock s) h = timers sb' h"
      by auto
  }
qed

subsection \<open>Runs\<close>

lemma fireTimeout_untouched:
  assumes "registry_inv s" "scheduledTerminations s sid = None"
  shows "scheduledTerminations (fireTimeout h s) sid = None \<and>
         stopCalls sid (fireTimeout h s) = stopCalls sid s"
proof (cases "timers s h")
  case None
  with assms show ?thesis by (simp add: fireTimeout_def)
next
  case (Some t)
  with assms have "streamId t \<noteq> sid" by (auto simp: registry_inv_def)
  with assms Some show ?thesis
    by (auto simp: fireTimeout_def Let_def stopCalls_def split: option.splits outcome.splits)
qed

lemma step_untouched:
  assumes "registry_inv s" "scheduledTerminations s sid = None"
    and "watch_skips sid a" "arms_other sid a"
  shows "registry_inv (step a s) \<and> scheduledTerminations (step a s) sid = None \<and>
         stopCalls sid (step a s) = stopCalls sid s"
proof (cases a)
  case (Poll Stream now)
  with assms show ?thesis
    using checkScheduledStreams_frame [of Stream now s]
    by (simp add: registry_inv_checkScheduledStreams checkScheduledStreams_stopCalls)
next
  case (Watch Stream clock)
  with assms checkStreamDurations_untouched [of sid Stream clock s] show ?thesis
    by (simp add: registry_inv_checkStreamDurations)
next
  case (Fire h)
  with assms fireTimeout_untouched [of s sid h] show ?thesis
    by (simp add: registry_inv_fire)
next
  case (Arm sid' d)
  with assms have other: "sid' \<noteq> sid" by simp
  have "scheduledTerminations (scheduleStreamTermination sid' d s) sid = None"
    using assms(2) other
    by (auto simp: scheduleStreamTermination_def setTimeout_def Let_def
             split: option.splits jsval.splits)
  with Arm assms show ?thesis by (simp add: registry_inv_schedule)
next
  case (Cancel sid')
  with assms registry_inv_cancel [OF assms(1), of sid'] show ?thesis
    by (auto simp: cancelStreamTermination_def Let_def stopCalls_def split: option.splits)
next
  case (Stopped sid')
  with assms registry_inv_cancel [OF assms(1), of sid'] show ?thesis
    by (auto simp: handleStreamStopped_def cancelStreamTermination_def Let_def stopCalls_def
             split: option.splits)
qed

lemma run_untouched:
  assumes "registry_inv s" "scheduledTerminations s sid = None"
    and "list_all (watch_skips sid) acts" "list_all (arms_other sid) acts"
  shows "registry_inv (run acts s) \<and> scheduledTerminations (run acts s) sid = None \<and>
         stopCalls sid (run acts s) = stopCalls sid s"
  using assms
proof (induction acts arbitrary: s)
  case Nil
  then show ?case by simp
next
  case (Cons a acts)
  from Cons.prems have a: "watch_skips sid a" "arms_other sid a"
    and rest: "list_all (watch_skips sid) acts" "list_all (arms_other sid) acts"
    by simp_all
  from step_untouched [OF Cons.prems(1,2) a]
  have s1: "registry_inv (step a s)" "scheduledTerminations (step a s) sid = None"
    "stopCalls sid (step a s) = stopCalls sid s"
    by simp_all
  from Cons.IH [OF s1(1,2) rest] s1(3) show ?case by simp
qed

lemma step_inv: "registry_inv s \<Longrightarrow> registry_inv (step a s)"
  by (cases a)
     (simp_all add: registry_inv_checkScheduledStreams registry_inv_checkStreamDurations
        registry_inv_fire registry_inv_schedule registry_inv_cancel handleStreamStopped_def)

lemma run_inv: "registry_inv s \<Longrightarrow> registry_inv (run acts s)"
  by (induction acts arbitrary: s) (simp_all add: step_inv)

lemma no_duration_skips: "reports_no_duration sid a \<Longrightarrow> watch_skips sid a"
  by (cases a) (auto simp: skipped_def list_all_iff split: outcome.splits)

lemma zero_or_unstarted_skips: "reports_zero_or_unstarted sid a \<Longrightarrow> watch_skips sid a"
  by (cases a) (auto simp: skipped_def list_all_iff split: outcome.splits)

lemma demo_run_no_duration: "list_all (reports_no_duration ''A'') demo_run"
  by (simp add: demo_run_def demo_rows_def spec_repository_def spec_findAll_def live_stream_def)

lemma demo_run_arms_other: "list_all (arms_other ''A'') demo_run"
  by (simp add: demo_run_def)

lemma demo_run_zero: "list_all (reports_zero_or_unstarted ''Z'') demo_run"
  by (simp add: demo_run_def demo_rows_def spec_repository_def spec_findAll_def live_stream_def)

lemma demo_run_unstarted: "list_all (reports_zero_or_unstarted ''U'') demo_run"
  by (simp add: demo_run_def demo_rows_def spec_repository_def spec_findAll_def live_stream_def)

lemma due_rows_query:
  "findScheduledInRange (spec_repository due_rows) 0 (lookAheadTime 0) = Resolved due_rows"
  by (simp add: spec_repository_def spec_findScheduledInRange_def due_rows_def
        scheduled_stream_def lookAheadTime_def SCHEDULE_LOOKAHEAD_SECONDS_def)

lemma demo_rows_query:
  "findAll (spec_repository demo_rows) None (Some Live) =
     Resolved ([live_stream ''A'' None (Some 0)] @ live_stream ''B'' (Some 10) (Some 0) #
               [live_stream ''Z'' (Some 0) (Some 0), live_stream ''U'' (Some 10) None])"
  by (simp add: spec_repository_def spec_findAll_def demo_rows_def live_stream_def)

lemma demo_rows_reach:
  "durationsLoop clock 0 [live_stream ''A'' None (Some 0)] s = (s, None)"
  by (simp add: checkStreamDuration_skipped skipped_def live_stream_def)

section \<open>The claims\<close>

text \<open>
  Claim C1. When the timeout armed for a stream fires, its callback calls the engine's stop
  for that stream and then deletes the stream's entry from the registry, whether the stop
  succeeds or fails, so that the next tick of the watchdog looks at the stream again.

  The code deletes the entry after the \<^verbatim>\<open>await\<close>, inside the \<^verbatim>\<open>try\<close> (line 91). A stop
  that resolves, with \<^verbatim>\<open>success\<close> true or false, is followed by the deletion
  (\<open>fireTimeout_resolved\<close>). A stop that rejects goes to the \<^verbatim>\<open>catch\<close>, and this is what
  is proved here: the stop was called, the timeout is no longer pending, the entry is still
  in the registry, and the watchdog passes over every stream of that id, whatever its
  duration and the time.
\<close>

theorem rejected_stop_leaves_stale_entry:
  assumes "timers s h = Some t" and "scheduledTerminations s (streamId t) = Some h"
    and "streamingService s = Some svc" and "stopStream svc (streamId t) = Rejected err"
  shows "scheduledTerminations (fireTimeout h s) (streamId t) = Some h \<and>
         timers (fireTimeout h s) h = None \<and>
         trace (fireTimeout h s) =
           trace s @ [Log_terminating (streamId t) (clampedMinutes t), Call_stopStream (streamId t),
                      Error_terminating (streamId t) err] \<and>
         (\<forall>now b. stream_id b = streamId t \<longrightarrow>
            checkStreamDuration now b (fireTimeout h s) = (fireTimeout h s, None))"
proof -
  note fired = fireTimeout_rejected [OF assms(1,3,4)]
  from fired(1) assms(2) have stale: "scheduledTerminations (fireTimeout h s) (streamId t) = Some h"
    by simp
  have "checkStreamDuration now b (fireTimeout h s) = (fireTimeout h s, None)"
    if "stream_id b = streamId t" for now b
    using stale that by (simp add: checkStreamDuration_tracked)
  with stale fired(2,3) show ?thesis by simp
qed

text \<open>The evaluation: \<open>B\<close> armed for one minute against the engine whose stops reject, the
  timeout fired, then a tick of the watchdog eleven minutes after \<open>B\<close> went live; and the
  same timeout fired against the engine whose stops resolve with \<^verbatim>\<open>success: false\<close>.\<close>

theorem rejected_stop_witness:
  "stopStream throwing_engine ''B'' = Rejected ''stop failed'' \<and>
   scheduledTerminations
     (scheduleStreamTermination ''B'' (JNumber (Finite 1)) (after_init throwing_engine)) ''B'' =
     Some 0 \<and>
   timers (scheduleStreamTermination ''B'' (JNumber (Finite 1)) (after_init throwing_engine)) 0 =
     Some \<lparr>streamId = ''B'', clampedMinutes = Finite 1, delay = Finite 60000\<rparr> \<and>
   trace (fireTimeout 0
     (scheduleStreamTermination ''B'' (JNumber (Finite 1)) (after_init throwing_engine))) =
     [Log_scheduling ''B'' (Finite 1), Log_terminating ''B'' (Finite 1), Call_stopStream ''B'',
      Error_terminating ''B'' ''stop failed''] \<and>
   timers (fireTimeout 0
     (scheduleStreamTermination ''B'' (JNumber (Finite 1)) (after_init throwing_engine))) 0 = None \<and>
   scheduledTerminations (fireTimeout 0
     (scheduleStreamTermination ''B'' (JNumber (Finite 1)) (after_init throwing_engine))) ''B'' =
     Some 0 \<and>
   findAll (spec_repository demo_rows) None (Some Live) = Resolved demo_rows \<and>
   trace (checkStreamDurations (spec_repository demo_rows) (\<lambda>i. 660000)
     (fireTimeout 0
       (scheduleStreamTermination ''B'' (JNumber (Finite 1)) (after_init throwing_engine)))) =
     [Log_scheduling ''B'' (Finite 1), Log_terminating ''B'' (Finite 1), Call_stopStream ''B'',
      Error_terminating ''B'' ''stop failed'', Call_findAll None (Some Live)] \<and>
   scheduledTerminations (checkStreamDurations (spec_repository demo_rows) (\<lambda>i. 660000)
     (fireTimeout 0
       (scheduleStreamTermination ''B'' (JNumber (Finite 1)) (after_init throwing_engine)))) ''B'' =
     Some 0 \<and>
   stopStream refusing_engine ''B'' = Resolved \<lparr>success = False, error = Some ''not running''\<rparr> \<and>
   scheduledTerminations (fireTimeout 0
     (scheduleStreamTermination ''B'' (JNumber (Finite 1)) (after_init refusing_engine))) ''B'' =
     None"
proof -
  let ?s0 = "after_init throwing_engine"
  let ?s1 = "scheduleStreamTermination ''B'' (JNumber (Finite 1)) ?s0"
  let ?s2 = "fireTimeout 0 ?s1"
  have svc0: "streamingService ?s0 \<noteq> None" by (simp add: after_init_def)
  have s1: "streamingService ?s1 = Some throwing_engine"
    "scheduledTerminations ?s1 = [''B'' \<mapsto> 0]"
    "timers ?s1 0 = Some \<lparr>streamId = ''B'', clampedMinutes = Finite 1, delay = Finite 60000\<rparr>"
    "trace ?s1 = [Log_scheduling ''B'' (Finite 1)]"
    using svc0 by (simp_all add: schedule_accepted after_init_def armed_def Math_max_pos)
  have rejects: "stopStream throwing_engine sid = Rejected ''stop failed''" for sid
    by (simp add: throwing_engine_def)
  have stop: "stopStream throwing_engine
      (streamId \<lparr>streamId = ''B'', clampedMinutes = Finite 1, delay = Finite 60000\<rparr>) =
      Rejected ''stop failed''"
    by (rule rejects)
  have entry: "scheduledTerminations ?s1
      (streamId \<lparr>streamId = ''B'', clampedMinutes = Finite 1, delay = Finite 60000\<rparr>) = Some 0"
    using s1(2) by simp
  note fired = rejected_stop_leaves_stale_entry [OF s1(3) entry s1(1) stop]
  have s2: "scheduledTerminations ?s2 ''B'' = Some 0" "timers ?s2 0 = None"
    "trace ?s2 = [Log_scheduling ''B'' (Finite 1), Log_terminating ''B'' (Finite 1),
       Call_stopStream ''B'', Error_terminating ''B'' ''stop failed'']"
    "streamingService ?s2 \<noteq> None"
    using fired [THEN conjunct1] fired [THEN conjunct2, THEN conjunct1]
      fired [THEN conjunct2, THEN conjunct2, THEN conjunct1] s1
    by simp_all
  have rows: "findAll (spec_repository demo_rows) None (Some Live) = Resolved demo_rows"
    by (simp add: spec_repository_def spec_findAll_def demo_rows_def live_stream_def)
  let ?s3 = "emit (Call_findAll None (Some Live)) ?s2"
  have loop: "durationsLoop (\<lambda>i. 660000) 0 demo_rows ?s3 = (?s3, None)"
    using s2(1)
    by (simp add: demo_rows_def checkStreamDuration_def live_stream_def)
  have tick: "checkStreamDurations (spec_repository demo_rows) (\<lambda>i. 660000) ?s2 = ?s3"
    using s2(4) rows loop by (simp add: checkStreamDurations_def Let_def)
  let ?r1 = "scheduleStreamTermination ''B'' (JNumber (Finite 1)) (after_init refusing_engine)"
  have init: "streamingService (after_init refusing_engine) \<noteq> None" by (simp add: after_init_def)
  have r1: "streamingService ?r1 = Some refusing_engine"
    "timers ?r1 0 = Some \<lparr>streamId = ''B'', clampedMinutes = Finite 1, delay = Finite 60000\<rparr>"
    using init by (simp_all add: schedule_accepted after_init_def armed_def Math_max_pos)
  have refuses: "stopStream refusing_engine sid =
      Resolved \<lparr>success = False, error = Some ''not running''\<rparr>" for sid
    by (simp add: refusing_engine_def)
  have refused: "stopStream refusing_engine
      (streamId \<lparr>streamId = ''B'', clampedMinutes = Finite 1, delay = Finite 60000\<rparr>) =
      Resolved \<lparr>success = False, error = Some ''not running''\<rparr>"
    by (rule refuses)
  from fireTimeout_resolved(1) [OF r1(2) r1(1) refused]
  have gone: "scheduledTerminations (fireTimeout 0 ?r1) ''B'' = None" by simp
  show ?thesis
    unfolding tick using s1 s2 rows rejects refuses gone by simp
qed

text \<open>
  Claim C2. The registry holds at most one pending termination per stream at any time:
  arming a stream that already has an entry cancels the old timeout and records exactly one
  new entry, for the delay of the new call.

  One call does replace (\<open>schedule_replaces\<close>), and the map holds one handle per stream.
  But the callback of a timeout that has fired deletes, after its \<^verbatim>\<open>await\<close>, whatever entry
  the stream has by then (line 91). When the stream is armed again while the callback is
  suspended, the deletion removes the new entry and leaves its timeout pending: the stream
  has a pending termination and no entry. The next call for the stream, which is the
  watchdog's as soon as line 54 finds no entry, then arms a second timeout beside the first.
  This is what is proved, for every state with a pending timeout \<open>h\<close> and every engine
  whose stop resolves.
\<close>

theorem rearm_during_await_orphans_timeout:
  assumes "timers s h = Some t" and "streamingService s = Some svc"
    and "stopStream svc (streamId t) = Resolved r" and "n \<noteq> NaN" and "n' \<noteq> NaN"
  shows "snd (fireTimeoutAwait h s) = Some (streamId t, Resolved r) \<and>
         scheduledTerminations (rearm_during_await h (streamId t) n s) (streamId t) = None \<and>
         timers (rearm_during_await h (streamId t) n s) (nextTimerId s) =
           Some (armed (streamId t) n) \<and>
         scheduledTerminations
           (scheduleStreamTermination (streamId t) (JNumber n')
              (rearm_during_await h (streamId t) n s)) (streamId t) = Some (Suc (nextTimerId s)) \<and>
         timers
           (scheduleStreamTermination (streamId t) (JNumber n')
              (rearm_during_await h (streamId t) n s)) (nextTimerId s) =
           Some (armed (streamId t) n) \<and>
         timers
           (scheduleStreamTermination (streamId t) (JNumber n')
              (rearm_during_await h (streamId t) n s)) (Suc (nextTimerId s)) =
           Some (armed (streamId t) n')"
proof -
  let ?sid = "streamId t"
  let ?s1 = "emit (Call_stopStream ?sid)
               (emit (Log_terminating ?sid (clampedMinutes t)) (clearTimeout h s))"
  let ?s2 = "scheduleStreamTermination ?sid (JNumber n) ?s1"
  let ?s3 = "fireTimeoutResume (?sid, Resolved r) ?s2"
  have await: "fireTimeoutAwait h s = (?s1, Some (?sid, Resolved r))"
    using fireTimeoutAwait_pending [OF assms(1,2)] assms(3) by simp
  then have scenario: "rearm_during_await h ?sid n s = ?s3"
    by (simp add: rearm_during_await_def)
  have svc1: "streamingService ?s1 \<noteq> None" using assms(2) by simp
  note arm = schedule_accepted [OF svc1 assms(4), of ?sid]
  have s3: "scheduledTerminations ?s3 ?sid = None" "timers ?s3 = timers ?s2"
    "nextTimerId ?s3 = nextTimerId ?s2" "streamingService ?s3 \<noteq> None"
    using svc1 by simp_all
  have orphan: "timers ?s3 (nextTimerId s) = Some (armed ?sid n)"
    "nextTimerId ?s3 = Suc (nextTimerId s)"
    using arm(2,3) s3(2,3) by (simp_all split: option.splits)
  note again = schedule_accepted [OF s3(4) assms(5), of ?sid]
  have both: "scheduledTerminations (scheduleStreamTermination ?sid (JNumber n') ?s3) ?sid =
        Some (Suc (nextTimerId s))"
    "timers (scheduleStreamTermination ?sid (JNumber n') ?s3) (nextTimerId s) =
        Some (armed ?sid n)"
    "timers (scheduleStreamTermination ?sid (JNumber n') ?s3) (Suc (nextTimerId s)) =
        Some (armed ?sid n')"
    using again(1,2) s3(1) orphan by simp_all
  from await s3(1) orphan(1) both show ?thesis
    unfolding scenario by simp
qed

text \<open>The stream \<open>B\<close> armed for ten minutes; its timeout fires and, while the stop is
  awaited, \<open>B\<close> is armed for five; the callback resumes; a tick of the watchdog at nine
  minutes arms \<open>B\<close> for the minute left. The timeouts \<open>1\<close> and \<open>2\<close> are both pending for
  \<open>B\<close>.\<close>

theorem rearm_during_await_witness:
  "timers (scheduleStreamTermination ''B'' (JNumber (Finite 10)) (after_init accepting_engine)) 0 =
     Some \<lparr>streamId = ''B'', clampedMinutes = Finite 10, delay = Finite 600000\<rparr> \<and>
   stopStream accepting_engine ''B'' = Resolved \<lparr>success = True, error = None\<rparr> \<and>
   scheduledTerminations
     (rearm_during_await 0 ''B'' (Finite 5)
       (scheduleStreamTermination ''B'' (JNumber (Finite 10)) (after_init accepting_engine)))
     ''B'' = None \<and>
   timers
     (rearm_during_await 0 ''B'' (Finite 5)
       (scheduleStreamTermination ''B'' (JNumber (Finite 10)) (after_init accepting_engine))) 1 =
     Some \<lparr>streamId = ''B'', clampedMinutes = Finite 5, delay = Finite 300000\<rparr> \<and>
   scheduledTerminations
     (checkStreamDurations (spec_repository demo_rows) (\<lambda>i. 540000)
       (rearm_during_await 0 ''B'' (Finite 5)
         (scheduleStreamTermination ''B'' (JNumber (Finite 10)) (after_init accepting_engine))))
     ''B'' = Some 2 \<and>
   timers
     (checkStreamDurations (spec_repository demo_rows) (\<lambda>i. 540000)
       (rearm_during_await 0 ''B'' (Finite 5)
         (scheduleStreamTermination ''B'' (JNumber (Finite 10)) (after_init accepting_engine)))) 1 =
     Some \<lparr>streamId = ''B'', clampedMinutes = Finite 5, delay = Finite 300000\<rparr> \<and>
   timers
     (checkStreamDurations (spec_repository demo_rows) (\<lambda>i. 540000)
       (rearm_during_await 0 ''B'' (Finite 5)
         (scheduleStreamTermination ''B'' (JNumber (Finite 10)) (after_init accepting_engine)))) 2 =
     Some \<lparr>streamId = ''B'', clampedMinutes = Finite 1, delay = Finite 60000\<rparr>"
proof -
  let ?s0 = "after_init accepting_engine"
  let ?sA = "scheduleStreamTermination ''B'' (JNumber (Finite 10)) ?s0"
  let ?t = "\<lparr>streamId = ''B'', clampedMinutes = Finite 10, delay = Finite 600000\<rparr>"
  let ?sR = "rearm_during_await 0 ''B'' (Finite 5) ?sA"
  let ?sb = "emit (Call_findAll None (Some Live)) ?sR"
  let ?b = "live_stream ''B'' (Some 10) (Some 0)"
  have svc0: "streamingService ?s0 \<noteq> None" by (simp add: after_init_def)
  have sA: "timers ?sA 0 = Some ?t" "streamingService ?sA = Some accepting_engine"
    "nextTimerId ?sA = 1"
    using svc0 by (simp_all add: schedule_accepted after_init_def armed_def Math_max_pos)
  have stop: "stopStream accepting_engine (streamId ?t) = Resolved \<lparr>success = True, error = None\<rparr>"
    by (simp add: accepting_engine_def)
  have n: "Finite 5 \<noteq> NaN" "Finite 1 \<noteq> NaN" by simp_all
  note race = rearm_during_await_orphans_timeout [OF sA(1,2) stop n]
  have sR: "scheduledTerminations ?sR ''B'' = None"
    "timers ?sR 1 = Some \<lparr>streamId = ''B'', clampedMinutes = Finite 5, delay = Finite 300000\<rparr>"
    using race [THEN conjunct2, THEN conjunct1] race [THEN conjunct2, THEN conjunct2, THEN conjunct1]
      sA(3)
    by (simp_all add: armed_def Math_max_pos)
  have svcR: "streamingService ?sR \<noteq> None" "nextTimerId ?sR = 2"
    using sA(2,3) n(1)
    by (simp_all add: rearm_during_await_pending [OF sA(1,2)] schedule_accepted)
  have b: "duration ?b = Some 10" "(10 :: int) \<noteq> 0" "start_time ?b = Some 0"
    "stream_id ?b = ''B''"
    by (simp_all add: live_stream_def)
  have entry: "scheduledTerminations ?sb (stream_id ?b) = None"
    using sR(1) b(4) by simp
  have step: "checkStreamDuration 540000 ?b ?sb =
      (scheduleStreamTermination ''B'' (JNumber (Finite 1)) ?sb, None)"
    using checkStreamDuration_in_range(2) [OF b(1,2,3) entry, of 540000] b(4) by simp
  let ?sb' = "scheduleStreamTermination ''B'' (JNumber (Finite 1)) ?sb"
  have svcb: "streamingService ?sb \<noteq> None" using svcR(1) by simp
  note arm = schedule_accepted [OF svcb n(2), of "''B''"]
  have sb': "scheduledTerminations ?sb' ''B'' = Some 2"
    "timers ?sb' 1 = Some \<lparr>streamId = ''B'', clampedMinutes = Finite 5, delay = Finite 300000\<rparr>"
    "timers ?sb' 2 = Some \<lparr>streamId = ''B'', clampedMinutes = Finite 1, delay = Finite 60000\<rparr>"
    "nextTimerId ?sb' = 3"
    using arm sR svcR(2) by (simp_all add: armed_def Math_max_pos)
  have present: "scheduledTerminations ?sb' ''B'' \<noteq> None" using sb'(1) by simp
  note after = checkStreamDurations_after
    [OF svcR(1) demo_rows_query demo_rows_reach, where clock = "\<lambda>i. 540000", OF step]
  from after(3) [OF present] after(4) [of 1] after(4) [of 2] sb'
  have tick:
    "scheduledTerminations (checkStreamDurations (spec_repository demo_rows) (\<lambda>i. 540000) ?sR) ''B'' =
       Some 2"
    "timers (checkStreamDurations (spec_repository demo_rows) (\<lambda>i. 540000) ?sR) 1 =
       Some \<lparr>streamId = ''B'', clampedMinutes = Finite 5, delay = Finite 300000\<rparr>"
    "timers (checkStreamDurations (spec_repository demo_rows) (\<lambda>i. 540000) ?sR) 2 =
       Some \<lparr>streamId = ''B'', clampedMinutes = Finite 1, delay = Finite 60000\<rparr>"
    by simp_all
  from sA(1) stop sR tick show ?thesis by simp
qed




text \<open>
  Claim C4, as amended. The claim has \<^verbatim>\<open>scheduleStreamTermination\<close> do nothing but log for
  every delay that is not a finite number, the two infinities included. The guard of line 77
  is \<^verbatim>\<open>typeof durationMinutes !== 'number' || Number.isNaN(durationMinutes)\<close>: it rejects
  what is not a number and \<open>NaN\<close>, and then nothing is scheduled, nothing is cancelled and
  no entry is added. An infinity passes the guard and is armed like any other number:
  \<open>-Infinity\<close> is clamped to the delay \<open>0\<close>, \<open>Infinity\<close> keeps an infinite delay.
\<close>

theorem guard_rejects_non_numbers_and_NaN:
  "(\<not> typeof_number d \<or> Number_isNaN d \<longrightarrow>
      scheduledTerminations (scheduleStreamTermination sid d s) = scheduledTerminations s \<and>
      timers (scheduleStreamTermination sid d s) = timers s \<and>
      nextTimerId (scheduleStreamTermination sid d s) = nextTimerId s \<and>
      streamingService (scheduleStreamTermination sid d s) = streamingService s \<and>
      trace (scheduleStreamTermination sid d s) =
        trace s @ [if streamingService s = None then Error_not_initialized
                   else Error_invalid_duration sid d]) \<and>
   (streamingService s \<noteq> None \<longrightarrow>
      scheduledTerminations (scheduleStreamTermination sid (JNumber NegInfinity) s) sid =
        Some (nextTimerId s) \<and>
      timers (scheduleStreamTermination sid (JNumber NegInfinity) s) (nextTimerId s) =
        Some \<lparr>streamId = sid, clampedMinutes = Finite 0, delay = Finite 0\<rparr> \<and>
      scheduledTerminations (scheduleStreamTermination sid (JNumber PosInfinity) s) sid =
        Some (nextTimerId s) \<and>
      timers (scheduleStreamTermination sid (JNumber PosInfinity) s) (nextTimerId s) =
        Some \<lparr>streamId = sid, clampedMinutes = PosInfinity, delay = PosInfinity\<rparr>)"
proof -
  have rejected: "scheduleStreamTermination sid d s =
      emit (if streamingService s = None then Error_not_initialized
            else Error_invalid_duration sid d) s"
    if "\<not> typeof_number d \<or> Number_isNaN d"
    using that by (rule schedule_rejected)
  have infinite: "scheduledTerminations (scheduleStreamTermination sid (JNumber n) s) sid =
        Some (nextTimerId s) \<and>
      timers (scheduleStreamTermination sid (JNumber n) s) (nextTimerId s) = Some (armed sid n)"
    if "streamingService s \<noteq> None" "n \<noteq> NaN" for n
    using that by (simp add: schedule_accepted split: option.splits)
  show ?thesis
    using rejected infinite [of NegInfinity] infinite [of PosInfinity]
    by (simp add: armed_def Math_max_infinite)
qed

text \<open>A string and \<open>NaN\<close> are rejected with one line of log; \<open>Infinity\<close> gets an
  entry.\<close>

theorem guard_rejects_witness:
  "\<not> typeof_number (JString ''ten'') \<and> Number_isNaN (JNumber NaN) \<and>
   streamingService (after_init accepting_engine) \<noteq> None \<and>
   scheduledTerminations
     (scheduleStreamTermination ''A'' (JString ''ten'') (after_init accepting_engine)) ''A'' = None \<and>
   trace (scheduleStreamTermination ''A'' (JString ''ten'') (after_init accepting_engine)) =
     [Error_invalid_duration ''A'' (JString ''ten'')] \<and>
   scheduledTerminations
     (scheduleStreamTermination ''A'' (JNumber NaN) (after_init accepting_engine)) ''A'' = None \<and>
   trace (scheduleStreamTermination ''A'' (JNumber NaN) (after_init accepting_engine)) =
     [Error_invalid_duration ''A'' (JNumber NaN)] \<and>
   scheduledTerminations
     (scheduleStreamTermination ''A'' (JNumber PosInfinity) (after_init accepting_engine)) ''A'' =
     Some 0"
proof -
  let ?s0 = "after_init accepting_engine"
  have s0: "streamingService ?s0 \<noteq> None" "scheduledTerminations ?s0 = Map.empty"
    "trace ?s0 = []" "nextTimerId ?s0 = 0"
    by (simp_all add: after_init_def)
  from guard_rejects_non_numbers_and_NaN [of "JString ''ten''" "''A''" ?s0]
       guard_rejects_non_numbers_and_NaN [of "JNumber NaN" "''A''" ?s0] s0
  show ?thesis by simp
qed

text \<open>The claim C4 as it is stated fails at both infinities: neither is a finite number,
  and each leaves an entry in the registry and a pending timeout.\<close>

theorem infinite_delay_is_armed:
  "\<not> Number_isFinite (JNumber NegInfinity) \<and> \<not> Number_isFinite (JNumber PosInfinity) \<and>
   scheduledTerminations (after_init accepting_engine) ''A'' = None \<and>
   timers (after_init accepting_engine) 0 = None \<and>
   scheduledTerminations
     (scheduleStreamTermination ''A'' (JNumber NegInfinity) (after_init accepting_engine)) ''A'' =
     Some 0 \<and>
   timers
     (scheduleStreamTermination ''A'' (JNumber NegInfinity) (after_init accepting_engine)) 0 =
     Some \<lparr>streamId = ''A'', clampedMinutes = Finite 0, delay = Finite 0\<rparr> \<and>
   scheduledTerminations
     (scheduleStreamTermination ''A'' (JNumber PosInfinity) (after_init accepting_engine)) ''A'' =
     Some 0 \<and>
   timers
     (scheduleStreamTermination ''A'' (JNumber PosInfinity) (after_init accepting_engine)) 0 =
     Some \<lparr>streamId = ''A'', clampedMinutes = PosInfinity, delay = PosInfinity\<rparr>"
  by (simp add: scheduleStreamTermination_def after_init_def setTimeout_def emit_def
        Math_max_def Let_def)

text \<open>
  Claim C5. Within a tick of the poller, a start that fails never aborts the rest of the
  tick: the failure is logged and every stream after it in the list is still processed.

  A start that resolves with \<^verbatim>\<open>success: false\<close> is logged at line 38 and the loop goes on
  (\<open>startLoop_resolved\<close>). A start that rejects is not held at the stream: the only
  \<^verbatim>\<open>catch\<close> is the one of line 42, around the whole tick. This is what is proved, for every
  state and every engine, when the query resolves with \<open>pre @ c # post\<close>, the starts of
  \<open>pre\<close> resolve and the start of \<open>c\<close> rejects with \<open>err\<close>: the tick is the state it
  began in with this trace added, which ends with the call for \<open>c\<close> and the one line of
  line 43; \<^verbatim>\<open>startStream\<close> is called for the streams of \<open>pre\<close> and for \<open>c\<close>, and for no
  stream of \<open>post\<close>.
\<close>

theorem rejected_start_aborts_tick:
  assumes "streamingService s = Some svc"
    and "findScheduledInRange Stream now (lookAheadTime now) = Resolved (pre @ c # post)"
    and "list_all (\<lambda>b. resolved (startStream svc (stream_id b))) pre"
    and "startStream svc (stream_id c) = Rejected err"
  shows "checkScheduledStreams Stream now s =
           s\<lparr>trace := trace s @
                [Call_findScheduledInRange now (lookAheadTime now),
                 Log_found (length (pre @ c # post))] @
                concat (map (start_events svc) pre) @
                [Log_starting (stream_id c) (title c), Call_startStream (stream_id c),
                 Error_checking_scheduled err]\<rparr> \<and>
         startCalls (trace (checkScheduledStreams Stream now s)) =
           startCalls (trace s) @ map stream_id pre @ [stream_id c] \<and>
         (\<forall>b. b \<in> set post \<and> stream_id b \<noteq> stream_id c \<and> stream_id b \<notin> stream_id ` set pre \<and>
              stream_id b \<notin> set (startCalls (trace s)) \<longrightarrow>
              stream_id b \<notin> set (startCalls (trace (checkScheduledStreams Stream now s))))"
proof -
  let ?s1 = "emit (Log_found (length (pre @ c # post)))
               (emit (Call_findScheduledInRange now (lookAheadTime now)) s)"
  have svc1: "streamingService ?s1 = Some svc" using assms(1) by simp
  note loop = startLoop_rejected [OF svc1 assms(3,4), of post]
  have tick: "checkScheduledStreams Stream now s =
      s\<lparr>trace := trace s @
           [Call_findScheduledInRange now (lookAheadTime now),
            Log_found (length (pre @ c # post))] @
           concat (map (start_events svc) pre) @
           [Log_starting (stream_id c) (title c), Call_startStream (stream_id c),
            Error_checking_scheduled err]\<rparr>"
    using checkScheduledStreams_unfold [OF assms(1,2) loop] by (simp add: emit_def)
  have calls: "startCalls (trace (checkScheduledStreams Stream now s)) =
      startCalls (trace s) @ map stream_id pre @ [stream_id c]"
    unfolding tick by (simp add: startCalls_start_events)
  from tick calls show ?thesis by auto
qed

text \<open>The start of \<open>C\<close> rejects: the tick logs the exception and ends, and \<open>D\<close>, after
  \<open>C\<close> in the list, is not started.\<close>

theorem rejected_start_witness:
  "streamingService (after_init throwing_engine) = Some throwing_engine \<and>
   findScheduledInRange (spec_repository due_rows) 0 (lookAheadTime 0) =
     Resolved [scheduled_stream ''C'' 30000, scheduled_stream ''D'' 30000] \<and>
   startStream throwing_engine ''C'' = Rejected ''rtmp unreachable'' \<and>
   trace (checkScheduledStreams (spec_repository due_rows) 0 (after_init throwing_engine)) =
     [Call_findScheduledInRange 0 60000, Log_found 2, Log_starting ''C'' ''demo'',
      Call_startStream ''C'', Error_checking_scheduled ''rtmp unreachable''] \<and>
   ''D'' \<notin> set (startCalls (trace (checkScheduledStreams (spec_repository due_rows) 0
     (after_init throwing_engine))))"
proof -
  let ?s0 = "after_init throwing_engine"
  let ?c = "scheduled_stream ''C'' 30000"
  let ?d = "scheduled_stream ''D'' 30000"
  have svc: "streamingService ?s0 = Some throwing_engine" and quiet: "trace ?s0 = []"
    by (simp_all add: after_init_def)
  have query: "findScheduledInRange (spec_repository due_rows) 0 (lookAheadTime 0) =
      Resolved ([] @ ?c # [?d])"
    using due_rows_query by (simp add: due_rows_def)
  have none: "list_all (\<lambda>b. resolved (startStream throwing_engine (stream_id b))) []"
    by simp
  have rejects: "startStream throwing_engine (stream_id ?c) = Rejected ''rtmp unreachable''"
    by (simp add: throwing_engine_def scheduled_stream_def)
  note tick = rejected_start_aborts_tick [OF svc query none rejects]
  from tick [THEN conjunct1] quiet
  have trace: "trace (checkScheduledStreams (spec_repository due_rows) 0 ?s0) =
     [Call_findScheduledInRange 0 60000, Log_found 2, Log_starting ''C'' ''demo'',
      Call_startStream ''C'', Error_checking_scheduled ''rtmp unreachable'']"
    by (simp add: scheduled_stream_def lookAheadTime_def SCHEDULE_LOOKAHEAD_SECONDS_def)
  from tick [THEN conjunct2, THEN conjunct1] quiet
  have calls: "startCalls (trace (checkScheduledStreams (spec_repository due_rows) 0 ?s0)) = [''C'']"
    by (simp add: scheduled_stream_def)
  from svc query rejects trace calls show ?thesis
    by (simp add: scheduled_stream_def throwing_engine_def)
qed

text \<open>
  Claim C6. A tick of the poller at \<open>now\<close> looks ahead to \<open>now\<close> plus
  \<^verbatim>\<open>SCHEDULE_LOOKAHEAD_SECONDS\<close>, sixty seconds, and the range of its query includes both
  ends: a stream scheduled at \<open>now\<close> or at \<open>now\<close> plus sixty seconds is included, one
  scheduled a second later is not.

  The horizon and the arguments of the query are the code's. What the query returns is
  \<^verbatim>\<open>Stream.findScheduledInRange\<close>, here the repository of the specification over a table
  \<open>rows\<close>; with an engine whose starts do not reject, the streams the tick starts are
  the scheduled rows of the table whose time is in the closed range.
\<close>

theorem poller_window_is_inclusive:
  assumes "streamingService s = Some svc" and "\<forall>sid. resolved (startStream svc sid)"
  shows "lookAheadTime now = now + 60 * 1000 \<and>
         (\<exists>rest. trace (checkScheduledStreams Stream now s) =
            trace s @ Call_findScheduledInRange now (now + 60 * 1000) # rest) \<and>
         startCalls (trace (checkScheduledStreams (spec_repository rows) now s)) =
           startCalls (trace s) @
           map stream_id
             (filter (\<lambda>b. status b = Scheduled \<and>
                (\<exists>t. schedule_time b = Some t \<and> now \<le> t \<and> t \<le> now + 60 * 1000)) rows) \<and>
         (\<forall>b. b \<in> set rows \<and> status b = Scheduled \<and>
              (schedule_time b = Some now \<or> schedule_time b = Some (now + 60 * 1000)) \<longrightarrow>
              stream_id b \<in> set (startCalls (trace (checkScheduledStreams (spec_repository rows) now s)))) \<and>
         (\<forall>sid. sid \<notin> set (startCalls (trace s)) \<and>
              (\<forall>b \<in> set rows. stream_id b = sid \<longrightarrow> schedule_time b = Some (now + 61 * 1000)) \<longrightarrow>
              sid \<notin> set (startCalls (trace (checkScheduledStreams (spec_repository rows) now s))))"
proof -
  let ?due = "\<lambda>b. status b = Scheduled \<and>
                (\<exists>t. schedule_time b = Some t \<and> now \<le> t \<and> t \<le> now + 60 * 1000)"
  let ?tick = "checkScheduledStreams (spec_repository rows) now s"
  have horizon: "lookAheadTime now = now + 60 * 1000"
    by (simp add: lookAheadTime_def SCHEDULE_LOOKAHEAD_SECONDS_def)
  have same: "(case schedule_time b of None \<Rightarrow> False | Some t \<Rightarrow> now \<le> t \<and> t \<le> now + 60000) =
      (\<exists>t. schedule_time b = Some t \<and> now \<le> t \<and> t \<le> now + 60 * 1000)" for b
    by (cases "schedule_time b") simp_all
  have query: "findScheduledInRange (spec_repository rows) now (lookAheadTime now) =
      Resolved (filter ?due rows)"
    by (simp add: spec_repository_def spec_findScheduledInRange_def horizon same)
  have "list_all (\<lambda>b. resolved (startStream svc (stream_id b))) (filter ?due rows)"
    using assms(2) by (simp add: list_all_iff)
  from checkScheduledStreams_calls [OF assms(1) query] take_all_resolved [OF this]
  have calls: "startCalls (trace ?tick) = startCalls (trace s) @ map stream_id (filter ?due rows)"
    by simp
  have svc: "streamingService s \<noteq> None" using assms(1) by simp
  from checkScheduledStreams_queries [OF svc, of Stream now]
  have asked: "\<exists>rest. trace (checkScheduledStreams Stream now s) =
      trace s @ Call_findScheduledInRange now (now + 60 * 1000) # rest"
    by (simp add: horizon)
  have included: "stream_id b \<in> set (startCalls (trace ?tick))"
    if "b \<in> set rows" "status b = Scheduled"
       "schedule_time b = Some now \<or> schedule_time b = Some (now + 60 * 1000)" for b
  proof -
    from that have "b \<in> set (filter ?due rows)" by auto
    then show ?thesis unfolding calls by auto
  qed
  have excluded: "sid \<notin> set (startCalls (trace ?tick))"
    if "sid \<notin> set (startCalls (trace s))"
       "\<forall>b \<in> set rows. stream_id b = sid \<longrightarrow> schedule_time b = Some (now + 61 * 1000)" for sid
  proof -
    from that(2) have "sid \<notin> stream_id ` set (filter ?due rows)" by auto
    with that(1) show ?thesis unfolding calls by simp
  qed
  from horizon asked calls included excluded show ?thesis by blast
qed

text \<open>A tick at the instant \<open>1000\<close> starts \<open>N\<close>, due at \<open>1000\<close>, and \<open>H\<close>, due at
  \<open>61000\<close>, and not \<open>L\<close>, due at \<open>62000\<close>.\<close>

theorem poller_window_witness:
  "streamingService (after_init accepting_engine) = Some accepting_engine \<and>
   resolved (startStream accepting_engine ''N'') \<and>
   lookAheadTime 1000 = 61000 \<and>
   startCalls (trace (checkScheduledStreams (spec_repository window_rows) 1000
     (after_init accepting_engine))) = [''N'', ''H''] \<and>
   ''L'' \<notin> set (startCalls (trace (checkScheduledStreams (spec_repository window_rows) 1000
     (after_init accepting_engine))))"
proof -
  let ?s0 = "after_init accepting_engine"
  have svc: "streamingService ?s0 = Some accepting_engine" and quiet: "trace ?s0 = []"
    by (simp_all add: after_init_def)
  have ok: "\<forall>sid. resolved (startStream accepting_engine sid)"
    by (simp add: accepting_engine_def)
  note tick = poller_window_is_inclusive [OF svc ok, where now = 1000 and rows = window_rows]
  from tick [THEN conjunct1] have horizon: "lookAheadTime 1000 = 61000" by simp
  from tick [THEN conjunct2, THEN conjunct2, THEN conjunct1] quiet
  have calls: "startCalls (trace (checkScheduledStreams (spec_repository window_rows) 1000 ?s0)) =
      [''N'', ''H'']"
    by (simp add: window_rows_def scheduled_stream_def)
  from svc ok horizon calls show ?thesis by simp
qed

text \<open>
  Claim C7. A finite delay that is negative or zero is not rejected: it is clamped to zero,
  a timeout of delay zero is armed and the entry is recorded.

  In a state after \<^verbatim>\<open>init\<close>, the entry of the stream is the new handle, the timeout of that
  handle has the clamped minutes \<open>0\<close> and the delay \<open>0\<close>, and the line logged is the one of
  line 86, not the rejection of line 78.
\<close>

theorem nonpositive_delay_is_immediate:
  assumes "streamingService s \<noteq> None" and "r \<le> 0"
  shows "scheduledTerminations (scheduleStreamTermination sid (JNumber (Finite r)) s) sid =
           Some (nextTimerId s) \<and>
         timers (scheduleStreamTermination sid (JNumber (Finite r)) s) (nextTimerId s) =
           Some \<lparr>streamId = sid, clampedMinutes = Finite 0, delay = Finite 0\<rparr> \<and>
         trace (scheduleStreamTermination sid (JNumber (Finite r)) s) =
           trace s @ [Log_scheduling sid (Finite 0)]"
  using assms
  by (simp add: schedule_accepted armed_def Math_max_nonpos split: option.splits)

text \<open>Arming \<open>A\<close> for minus five minutes.\<close>

theorem nonpositive_delay_is_immediate_witness:
  "streamingService (after_init accepting_engine) \<noteq> None \<and> (-5 :: rat) \<le> 0 \<and>
   scheduledTerminations
     (scheduleStreamTermination ''A'' (JNumber (Finite (-5))) (after_init accepting_engine)) ''A'' =
     Some 0 \<and>
   timers
     (scheduleStreamTermination ''A'' (JNumber (Finite (-5))) (after_init accepting_engine)) 0 =
     Some \<lparr>streamId = ''A'', clampedMinutes = Finite 0, delay = Finite 0\<rparr>"
proof -
  have svc: "streamingService (after_init accepting_engine) \<noteq> None"
    by (simp add: after_init_def)
  have neg: "(-5 :: rat) \<le> 0" by simp
  have next0: "nextTimerId (after_init accepting_engine) = 0"
    by (simp add: after_init_def)
  from nonpositive_delay_is_immediate [OF svc neg, of "''A''"] svc show ?thesis
    by (simp add: next0)
qed

text \<open>
  Claim C8. For a stream without an entry, \<^verbatim>\<open>cancelStreamTermination\<close> and its alias
  \<^verbatim>\<open>handleStreamStopped\<close> return false and change nothing; for a stream with an entry
  they clear its timeout, delete the entry and return true.

  Without an entry both give \<open>(False, s)\<close>: the state as it was, the trace included. With
  the entry \<open>h\<close> the timeout \<open>h\<close> is no longer pending, the entry is gone, the one line of
  line 102 is logged, and nothing else changes.
\<close>

theorem cancel_contract:
  "(scheduledTerminations s sid = None \<longrightarrow>
      cancelStreamTermination sid s = (False, s) \<and> handleStreamStopped sid s = (False, s)) \<and>
   (\<forall>h. scheduledTerminations s sid = Some h \<longrightarrow>
      fst (cancelStreamTermination sid s) = True \<and>
      timers (snd (cancelStreamTermination sid s)) = (timers s)(h := None) \<and>
      scheduledTerminations (snd (cancelStreamTermination sid s)) =
        (scheduledTerminations s)(sid := None) \<and>
      nextTimerId (snd (cancelStreamTermination sid s)) = nextTimerId s \<and>
      streamingService (snd (cancelStreamTermination sid s)) = streamingService s \<and>
      trace (snd (cancelStreamTermination sid s)) = trace s @ [Log_cancelled sid] \<and>
      handleStreamStopped sid s = cancelStreamTermination sid s)"
  by (simp add: cancelStreamTermination_def handleStreamStopped_def Let_def)

text \<open>Cancelling \<open>A\<close> right after \<^verbatim>\<open>init\<close>, and after arming it for one minute.\<close>

theorem cancel_contract_witness:
  "scheduledTerminations (after_init accepting_engine) ''A'' = None \<and>
   cancelStreamTermination ''A'' (after_init accepting_engine) = (False, after_init accepting_engine) \<and>
   handleStreamStopped ''A'' (after_init accepting_engine) = (False, after_init accepting_engine) \<and>
   scheduledTerminations
     (scheduleStreamTermination ''A'' (JNumber (Finite 1)) (after_init accepting_engine)) ''A'' = Some 0 \<and>
   fst (cancelStreamTermination ''A''
     (scheduleStreamTermination ''A'' (JNumber (Finite 1)) (after_init accepting_engine))) = True \<and>
   timers (snd (cancelStreamTermination ''A''
     (scheduleStreamTermination ''A'' (JNumber (Finite 1)) (after_init accepting_engine)))) 0 = None \<and>
   scheduledTerminations (snd (cancelStreamTermination ''A''
     (scheduleStreamTermination ''A'' (JNumber (Finite 1)) (after_init accepting_engine)))) ''A'' = None"
proof -
  let ?s0 = "after_init accepting_engine"
  let ?s1 = "scheduleStreamTermination ''A'' (JNumber (Finite 1)) ?s0"
  have none: "scheduledTerminations ?s0 ''A'' = None"
    by (simp add: after_init_def)
  have some: "scheduledTerminations ?s1 ''A'' = Some 0"
    by (simp add: schedule_accepted after_init_def)
  from cancel_contract [of ?s0 "''A''"] none
  have a: "cancelStreamTermination ''A'' ?s0 = (False, ?s0)"
    "handleStreamStopped ''A'' ?s0 = (False, ?s0)"
    by simp_all
  from cancel_contract [of ?s1 "''A''"] some
  have b: "fst (cancelStreamTermination ''A'' ?s1) = True"
    "timers (snd (cancelStreamTermination ''A'' ?s1)) = (timers ?s1)(0 := None)"
    "scheduledTerminations (snd (cancelStreamTermination ''A'' ?s1)) =
       (scheduledTerminations ?s1)(''A'' := None)"
    by simp_all
  from none some a b show ?thesis by simp
qed

text \<open>
  Claim C9. A live stream without a duration is never armed by the watchdog, on any tick
  and over any number of ticks, and never stopped by it.

  Take any run of the module (ticks of the watchdog and of the poller, timeouts that fire,
  cancellations, streams armed from outside) from a state that satisfies the invariant of
  the registry and holds no entry for the stream, in which every tick of the watchdog is
  given the stream only without a duration and nobody arms the stream from outside. After
  the run the stream has no entry, no pending timeout is for it, and the engine's stop has
  not been called for it once more than before.
\<close>

theorem no_duration_never_armed:
  assumes "registry_inv s" and "scheduledTerminations s sid = None"
    and "list_all (reports_no_duration sid) acts" and "list_all (arms_other sid) acts"
  shows "scheduledTerminations (run acts s) sid = None \<and>
         (\<forall>h t. timers (run acts s) h = Some t \<longrightarrow> streamId t \<noteq> sid) \<and>
         stopCalls sid (run acts s) = stopCalls sid s"
proof -
  from assms(3) have "list_all (watch_skips sid) acts"
    by (induction acts) (simp_all add: no_duration_skips)
  from run_untouched [OF assms(1,2) this assms(4)]
  have inv: "registry_inv (run acts s)"
    and none: "scheduledTerminations (run acts s) sid = None"
    and calls: "stopCalls sid (run acts s) = stopCalls sid s"
    by simp_all
  from inv none have "\<forall>h t. timers (run acts s) h = Some t \<longrightarrow> streamId t \<noteq> sid"
    by (auto simp: registry_inv_def)
  with none calls show ?thesis by simp
qed

text \<open>The stream \<open>A\<close>, without a duration, over the run of the four live streams.\<close>

theorem no_duration_never_armed_witness:
  "registry_inv (after_init accepting_engine) \<and>
   scheduledTerminations (after_init accepting_engine) ''A'' = None \<and>
   list_all (reports_no_duration ''A'') demo_run \<and>
   list_all (arms_other ''A'') demo_run \<and>
   scheduledTerminations (run demo_run (after_init accepting_engine)) ''A'' = None \<and>
   stopCalls ''A'' (run demo_run (after_init accepting_engine)) = 0"
proof -
  have start: "scheduledTerminations (after_init accepting_engine) ''A'' = None"
    "stopCalls ''A'' (after_init accepting_engine) = 0"
    by (simp_all add: after_init_def stopCalls_def)
  from no_duration_never_armed [OF after_init_inv start(1) demo_run_no_duration demo_run_arms_other]
  show ?thesis
    using after_init_inv start demo_run_no_duration demo_run_arms_other by simp
qed

text \<open>
  Claim C10. A live stream whose duration is exactly \<open>0\<close>, or whose start time is absent,
  is neither stopped nor armed by the watchdog on any tick: line 54 takes the duration \<open>0\<close>
  for no duration, although the expiry \<open>start_time + 0\<close> is already past.

  As for C9, over any run in which every tick of the watchdog is given the stream only with
  the duration \<open>0\<close> or without a start time.
\<close>

theorem zero_duration_never_armed:
  assumes "registry_inv s" and "scheduledTerminations s sid = None"
    and "list_all (reports_zero_or_unstarted sid) acts" and "list_all (arms_other sid) acts"
  shows "scheduledTerminations (run acts s) sid = None \<and>
         (\<forall>h t. timers (run acts s) h = Some t \<longrightarrow> streamId t \<noteq> sid) \<and>
         stopCalls sid (run acts s) = stopCalls sid s"
proof -
  from assms(3) have "list_all (watch_skips sid) acts"
    by (induction acts) (simp_all add: zero_or_unstarted_skips)
  from run_untouched [OF assms(1,2) this assms(4)]
  have inv: "registry_inv (run acts s)"
    and none: "scheduledTerminations (run acts s) sid = None"
    and calls: "stopCalls sid (run acts s) = stopCalls sid s"
    by simp_all
  from inv none have "\<forall>h t. timers (run acts s) h = Some t \<longrightarrow> streamId t \<noteq> sid"
    by (auto simp: registry_inv_def)
  with none calls show ?thesis by simp
qed

text \<open>The stream \<open>Z\<close> of duration \<open>0\<close>, live since the instant \<open>0\<close> and seen by ticks
  nine and eleven minutes later, and the stream \<open>U\<close> without a start time.\<close>

theorem zero_duration_never_armed_witness:
  "registry_inv (after_init accepting_engine) \<and>
   scheduledTerminations (after_init accepting_engine) ''Z'' = None \<and>
   scheduledTerminations (after_init accepting_engine) ''U'' = None \<and>
   list_all (reports_zero_or_unstarted ''Z'') demo_run \<and>
   list_all (reports_zero_or_unstarted ''U'') demo_run \<and>
   list_all (arms_other ''Z'') demo_run \<and>
   list_all (arms_other ''U'') demo_run \<and>
   scheduledTerminations (run demo_run (after_init accepting_engine)) ''Z'' = None \<and>
   stopCalls ''Z'' (run demo_run (after_init accepting_engine)) = 0 \<and>
   scheduledTerminations (run demo_run (after_init accepting_engine)) ''U'' = None \<and>
   stopCalls ''U'' (run demo_run (after_init accepting_engine)) = 0"
proof -
  have start: "scheduledTerminations (after_init accepting_engine) sid = None"
    "stopCalls sid (after_init accepting_engine) = 0" for sid
    by (simp_all add: after_init_def stopCalls_def)
  have others: "list_all (arms_other ''Z'') demo_run" "list_all (arms_other ''U'') demo_run"
    by (simp_all add: demo_run_def)
  from zero_duration_never_armed [OF after_init_inv start(1) demo_run_zero others(1)]
       zero_duration_never_armed [OF after_init_inv start(1) demo_run_unstarted others(2)]
  show ?thesis
    using after_init_inv start demo_run_zero demo_run_unstarted others by simp
qed

end
